theory Spec2Isabelle
  imports Main "HOL-Library.AList"
begin

section \<open>The WebDAV COPY handler of CloudPaste\<close>

text \<open>
  The handler \<^verbatim>\<open>handleCopy(c, path, userId, userType, db)\<close> resolves the source and the
  destination of a COPY request to keys of one S3 bucket and then copies a file, a
  directory marker or a whole prefix with single S3 commands. Its collaborators (mount
  resolution, path normalisation, the S3 client, the cache and the timestamp helper) are
  imported from other modules; the model takes them as the fields of an environment and
  threads the state they work on through every call, together with a trace of the calls
  the handler makes.
\<close>

subsection \<open>JavaScript strings\<close>

definition startsWith :: "string \<Rightarrow> string \<Rightarrow> bool" where
  "startsWith s p = (take (length p) s = p)"

definition endsWith :: "string \<Rightarrow> string \<Rightarrow> bool" where
  "endsWith s p = (length p \<le> length s \<and> drop (length s - length p) s = p)"

text \<open>\<^verbatim>\<open>s.lastIndexOf(c)\<close>: the last position of the character, or -1.\<close>

fun lastIndexOf :: "string \<Rightarrow> char \<Rightarrow> int" where
  "lastIndexOf [] c = - 1"
| "lastIndexOf (x # xs) c =
     (let r = lastIndexOf xs c in
      if 0 \<le> r then r + 1 else if x = c then 0 else - 1)"

text \<open>A value used as a condition: \<^verbatim>\<open>undefined\<close>, \<^verbatim>\<open>null\<close> and the empty string are falsy.\<close>

definition truthy :: "string option \<Rightarrow> bool" where
  "truthy v = (case v of None \<Rightarrow> False | Some s \<Rightarrow> s \<noteq> [])"

subsection \<open>Requests, responses and the metadata records\<close>

record request =
  path :: string
  Destination :: "string option"
  Depth :: "string option"
  Overwrite :: "string option"

text \<open>
  The bodies of the handler's responses are fixed texts of the source; each constructor
  names one of them. \<open>Message\<close> carries a text that the mount resolution supplies.
\<close>

datatype body =
    Message string
  | MissingDestinationHeader
  | SamePath
  | RootDestination
  | CrossMount
  | InvalidDepth
  | ConfigMissing
  | DestinationExists
  | SourceDirectoryMissing
  | SourceFileMissing
  | NoBody

record response =
  status :: nat
  content :: body

record mount_error =
  err_status :: nat
  err_message :: string

record mount =
  mount_id :: string
  storage_config_id :: string

text \<open>The object that \<^verbatim>\<open>findMountPointByPath\<close> returns; an absent property is \<open>None\<close>.\<close>

record mount_result =
  error :: "mount_error option"
  isRoot :: bool
  mount :: "mount option"
  subPath :: string

record s3_config =
  bucket_name :: string
  root_prefix :: "string option"

subsection \<open>Thrown values, S3 commands and the trace\<close>

text \<open>
  A thrown service error carries \<^verbatim>\<open>$metadata.httpStatusCode\<close> when it has one; reading
  a property of \<^verbatim>\<open>undefined\<close> throws a \<open>TypeError\<close>, which has none.
\<close>

datatype exn = ServiceError "nat option" | TypeError

fun is404 :: "exn \<Rightarrow> bool" where
  "is404 (ServiceError c) = (c = Some 404)"
| "is404 TypeError = False"

text \<open>
  The commands of the S3 client. Every command of one request names the bucket of the
  one configuration, so the bucket is left out. \<open>PutObjectCommand\<close> has Key, Body,
  ContentType and ContentLength; \<open>ListObjectsV2Command\<close> has Prefix and
  ContinuationToken; \<open>CopyObjectCommand\<close> has the source key (sent percent-encoded after
  the bucket name as CopySource) and Key. The handler constructs no
  \<open>DeleteObjectCommand\<close>; the client has it.
\<close>

datatype command =
    HeadObjectCommand string
  | PutObjectCommand string string "string option" "nat option"
  | ListObjectsV2Command string "string option"
  | CopyObjectCommand string string
  | DeleteObjectCommand string

record s3_output =
  Contents :: "string list option"
  NextContinuationToken :: "string option"

datatype event =
    Send command
  | CheckDirectoryExists string
  | UpdateParentDirectoriesModifiedTime string string
  | ClearCache string bool string
  | UpdateMountLastUsed string

record 's world =
  backend :: 's
  trace :: "event list"

subsection \<open>The collaborators\<close>

text \<open>
  The imported functions. The two lookups of the metadata store and the two path
  functions only read, and are taken to return; the others run against the state \<open>'s\<close>
  of the storage service and its caches, may change it and may throw. The client that
  \<^verbatim>\<open>createS3Client\<close> builds is the field \<open>send\<close>.
\<close>

record 's env =
  findMountPointByPath :: "string \<Rightarrow> mount_result"
  parseDestinationPath :: "string option \<Rightarrow> string option"
  s3_configs :: "string \<Rightarrow> s3_config option"
  normalizeS3SubPath :: "string \<Rightarrow> s3_config \<Rightarrow> bool \<Rightarrow> string"
  checkDirectoryExists :: "string \<Rightarrow> 's \<Rightarrow> (exn + bool) \<times> 's"
  send :: "command \<Rightarrow> 's \<Rightarrow> (exn + s3_output) \<times> 's"
  updateParentDirectoriesModifiedTime :: "string \<Rightarrow> string \<Rightarrow> 's \<Rightarrow> (exn + unit) \<times> 's"
  clearCacheAfterWebDAVOperation :: "string \<Rightarrow> bool \<Rightarrow> string \<Rightarrow> 's \<Rightarrow> (exn + unit) \<times> 's"
  updateMountLastUsed :: "string \<Rightarrow> 's \<Rightarrow> (exn + unit) \<times> 's"
  handleWebDAVError :: "exn \<Rightarrow> response"

text \<open>One call of a collaborator: the call is appended to the trace, also when it throws.\<close>

definition call :: "event \<Rightarrow> ('s \<Rightarrow> (exn + 'a) \<times> 's) \<Rightarrow> 's world \<Rightarrow> (exn + 'a) \<times> 's world" where
  "call ev f w =
     (case f (backend w) of (r, s) \<Rightarrow> (r, \<lparr>backend = s, trace = trace w @ [ev]\<rparr>))"

definition s3 :: "'s env \<Rightarrow> command \<Rightarrow> 's world \<Rightarrow> (exn + s3_output) \<times> 's world" where
  "s3 E c = call (Send c) (send E c)"

subsection \<open>Validation: lines 20 to 109\<close>

record plan =
  the_mount :: mount
  s3Config :: s3_config
  isDirectory :: bool
  sourceS3SubPath :: string
  destS3SubPath :: string
  depth :: string
  allowOverwrite :: bool

definition depthHeader :: "request \<Rightarrow> string" where
  "depthHeader req = (if truthy (Depth req) then the (Depth req) else ''infinity'')"

text \<open>
  Everything before the first storage call. \<open>Inl\<close> is the response of an early return
  (or of the error handler, when a mount property is read from \<^verbatim>\<open>undefined\<close>), \<open>Inr\<close>
  the values the rest of the handler works with.
\<close>

definition validate :: "'s env \<Rightarrow> request \<Rightarrow> response + plan" where
  "validate E req =
     (let sourceMountResult = findMountPointByPath E (path req) in
      case error sourceMountResult of
        Some e \<Rightarrow> Inl \<lparr>status = err_status e, content = Message (err_message e)\<rparr>
      | None \<Rightarrow>
     (let destPath = parseDestinationPath E (Destination req) in
      if \<not> truthy destPath then Inl \<lparr>status = 400, content = MissingDestinationHeader\<rparr>
      else if path req = the destPath then Inl \<lparr>status = 400, content = SamePath\<rparr>
      else
     (let destMountResult = findMountPointByPath E (the destPath) in
      if isRoot destMountResult then Inl \<lparr>status = 403, content = RootDestination\<rparr>
      else case error destMountResult of
        Some e \<Rightarrow> Inl \<lparr>status = err_status e, content = Message (err_message e)\<rparr>
      | None \<Rightarrow>
     (case (mount sourceMountResult, mount destMountResult) of
        (Some sm, Some dm) \<Rightarrow>
          if mount_id sm \<noteq> mount_id dm then Inl \<lparr>status = 502, content = CrossMount\<rparr>
          else if depthHeader req \<noteq> ''0'' \<and> depthHeader req \<noteq> ''infinity''
            then Inl \<lparr>status = 400, content = InvalidDepth\<rparr>
          else
            (case s3_configs E (storage_config_id sm) of
               None \<Rightarrow> Inl \<lparr>status = 404, content = ConfigMissing\<rparr>
             | Some cfg \<Rightarrow>
                 Inr \<lparr>the_mount = sm, s3Config = cfg,
                      isDirectory = endsWith (path req) ''/'',
                      sourceS3SubPath =
                        normalizeS3SubPath E (subPath sourceMountResult) cfg
                          (endsWith (path req) ''/''),
                      destS3SubPath =
                        normalizeS3SubPath E (subPath destMountResult) cfg
                          (endsWith (path req) ''/''),
                      depth = depthHeader req,
                      allowOverwrite = (Overwrite req \<noteq> Some ''F'')\<rparr>)
      | _ \<Rightarrow> Inl (handleWebDAVError E TypeError)))))"

subsection \<open>The destination's parent and the overwrite check: lines 111 to 162\<close>

definition destParentPath :: "string \<Rightarrow> string" where
  "destParentPath d = take (nat (lastIndexOf d CHR ''/'' + 1)) d"

definition directoryMarker :: "string \<Rightarrow> command" where
  "directoryMarker k = PutObjectCommand k [] (Some ''application/x-directory'') None"

definition emptyObject :: "string \<Rightarrow> command" where
  "emptyObject k = PutObjectCommand k [] None (Some 0)"

text \<open>
  A missing parent is created; what the creation throws is logged and dropped. What
  \<^verbatim>\<open>checkDirectoryExists\<close> throws is not.
\<close>

definition ensureParent :: "'s env \<Rightarrow> plan \<Rightarrow> 's world \<Rightarrow> (exn + unit) \<times> 's world" where
  "ensureParent E p w =
     (if CHR ''/'' \<in> set (destS3SubPath p) then
        (case call (CheckDirectoryExists (destParentPath (destS3SubPath p)))
                (checkDirectoryExists E (destParentPath (destS3SubPath p))) w of
           (Inl e, w1) \<Rightarrow> (Inl e, w1)
         | (Inr parentExists, w1) \<Rightarrow>
             if parentExists then (Inr (), w1)
             else (case s3 E (directoryMarker (destParentPath (destS3SubPath p))) w1 of
                     (r, w2) \<Rightarrow> (Inr (), w2)))
      else (Inr (), w))"

definition destinationExists :: "'s env \<Rightarrow> plan \<Rightarrow> 's world \<Rightarrow> (exn + bool) \<times> 's world" where
  "destinationExists E p w =
     (case s3 E (HeadObjectCommand (destS3SubPath p)) w of
        (Inr out, w1) \<Rightarrow> (Inr True, w1)
      | (Inl e, w1) \<Rightarrow> if is404 e then (Inr False, w1) else (Inl e, w1))"

subsection \<open>The transfer: lines 164 to 297\<close>

definition rootPrefix :: "s3_config \<Rightarrow> string" where
  "rootPrefix cfg =
     (if truthy (root_prefix cfg)
      then (if endsWith (the (root_prefix cfg)) ''/'' then the (root_prefix cfg)
            else the (root_prefix cfg) @ ''/'')
      else [])"

definition touchParents :: "'s env \<Rightarrow> plan \<Rightarrow> 's world \<Rightarrow> (exn + unit) \<times> 's world" where
  "touchParents E p =
     call (UpdateParentDirectoriesModifiedTime (destS3SubPath p) (rootPrefix (s3Config p)))
       (updateParentDirectoriesModifiedTime E (destS3SubPath p) (rootPrefix (s3Config p)))"

definition clearCache :: "'s env \<Rightarrow> plan \<Rightarrow> bool \<Rightarrow> 's world \<Rightarrow> (exn + unit) \<times> 's world" where
  "clearCache E p isDir =
     call (ClearCache (destS3SubPath p) isDir (mount_id (the_mount p)))
       (clearCacheAfterWebDAVOperation E (destS3SubPath p) isDir (mount_id (the_mount p)))"

text \<open>
  The result of a branch of the transfer: \<open>Inl\<close> a thrown value, \<open>Inr (Some r)\<close> an early
  return with the response \<open>r\<close>, \<open>Inr None\<close> the end of the branch.
\<close>

type_synonym 's branch = "(exn + response option) \<times> 's world"

definition copyMarker :: "'s env \<Rightarrow> plan \<Rightarrow> 's world \<Rightarrow> 's branch" where
  "copyMarker E p w =
     (case s3 E (emptyObject (destS3SubPath p)) w of
        (Inl e, w1) \<Rightarrow> (Inl e, w1)
      | (Inr out, w1) \<Rightarrow>
          (case clearCache E p True w1 of
             (Inl e, w2) \<Rightarrow> (Inl e, w2)
           | (Inr u, w2) \<Rightarrow> (Inr None, w2)))"

text \<open>
  The \<^verbatim>\<open>do ... while (continuationToken)\<close> loop. It ends when a page comes without a
  truthy token; against a service that always sends one it does not end, and the value
  is \<open>None\<close>.
\<close>

partial_function (option) listObjects ::
  "'s env \<Rightarrow> string \<Rightarrow> string list \<Rightarrow> string option \<Rightarrow> 's world \<Rightarrow>
     ((exn + string list) \<times> 's world) option" where
  "listObjects E prefix objects continuationToken w =
     (case s3 E (ListObjectsV2Command prefix continuationToken) w of
        (Inl e, w1) \<Rightarrow> Some (Inl e, w1)
      | (Inr listResponse, w1) \<Rightarrow>
          if truthy (NextContinuationToken listResponse)
          then listObjects E prefix
                 (case Contents listResponse of None \<Rightarrow> objects | Some cs \<Rightarrow> objects @ cs)
                 (NextContinuationToken listResponse) w1
          else Some (Inr (case Contents listResponse of None \<Rightarrow> objects
                          | Some cs \<Rightarrow> objects @ cs), w1))"

declare listObjects.simps [code]

fun copyObjects :: "'s env \<Rightarrow> plan \<Rightarrow> string list \<Rightarrow> 's world \<Rightarrow> (exn + unit) \<times> 's world" where
  "copyObjects E p [] w = (Inr (), w)"
| "copyObjects E p (key # objects) w =
     (case s3 E (CopyObjectCommand key
              (destS3SubPath p @ drop (length (sourceS3SubPath p)) key)) w of
        (Inl e, w1) \<Rightarrow> (Inl e, w1)
      | (Inr out, w1) \<Rightarrow> copyObjects E p objects w1)"

text \<open>
  No object was listed: the \<^verbatim>\<open>try\<close> around the head of the source, the put of the
  destination marker and the cache call answers 404 to whatever they throw with the
  status 404, and throws the rest again.
\<close>

definition sourceDirectoryMissing :: "exn \<Rightarrow> 's world \<Rightarrow> 's branch" where
  "sourceDirectoryMissing e w =
     (if is404 e then (Inr (Some \<lparr>status = 404, content = SourceDirectoryMissing\<rparr>), w)
      else (Inl e, w))"

definition copyEmptyDirectory :: "'s env \<Rightarrow> plan \<Rightarrow> 's world \<Rightarrow> 's branch" where
  "copyEmptyDirectory E p w =
     (case s3 E (HeadObjectCommand (sourceS3SubPath p)) w of
        (Inl e, w1) \<Rightarrow> sourceDirectoryMissing e w1
      | (Inr out, w1) \<Rightarrow>
          (case s3 E (emptyObject (destS3SubPath p)) w1 of
             (Inl e, w2) \<Rightarrow> sourceDirectoryMissing e w2
           | (Inr out2, w2) \<Rightarrow>
               (case clearCache E p True w2 of
                  (Inl e, w3) \<Rightarrow> sourceDirectoryMissing e w3
                | (Inr u, w3) \<Rightarrow> (Inr None, w3))))"

definition copyListed :: "'s env \<Rightarrow> plan \<Rightarrow> string list \<Rightarrow> 's world \<Rightarrow> 's branch" where
  "copyListed E p objects w =
     (case copyObjects E p objects w of
        (Inl e, w1) \<Rightarrow> (Inl e, w1)
      | (Inr u, w1) \<Rightarrow>
          (case touchParents E p w1 of
             (Inl e, w2) \<Rightarrow> (Inl e, w2)
           | (Inr u2, w2) \<Rightarrow>
               (case clearCache E p True w2 of
                  (Inl e, w3) \<Rightarrow> (Inl e, w3)
                | (Inr u3, w3) \<Rightarrow> (Inr None, w3))))"

definition copyDirectory :: "'s env \<Rightarrow> plan \<Rightarrow> 's world \<Rightarrow> 's branch option" where
  "copyDirectory E p w =
     (case listObjects E (sourceS3SubPath p) [] None w of
        None \<Rightarrow> None
      | Some (Inl e, w1) \<Rightarrow> Some (Inl e, w1)
      | Some (Inr objects, w1) \<Rightarrow>
          if length objects = 0 then Some (copyEmptyDirectory E p w1)
          else Some (copyListed E p objects w1))"

definition copyFile :: "'s env \<Rightarrow> plan \<Rightarrow> 's world \<Rightarrow> 's branch" where
  "copyFile E p w =
     (case s3 E (HeadObjectCommand (sourceS3SubPath p)) w of
        (Inl e, w1) \<Rightarrow>
          if is404 e then (Inr (Some \<lparr>status = 404, content = SourceFileMissing\<rparr>), w1)
          else (Inl e, w1)
      | (Inr out, w1) \<Rightarrow>
          (case s3 E (CopyObjectCommand (sourceS3SubPath p) (destS3SubPath p)) w1 of
             (Inl e, w2) \<Rightarrow> (Inl e, w2)
           | (Inr out2, w2) \<Rightarrow>
               (case touchParents E p w2 of
                  (Inl e, w3) \<Rightarrow> (Inl e, w3)
                | (Inr u, w3) \<Rightarrow>
                    (case clearCache E p False w3 of
                       (Inl e, w4) \<Rightarrow> (Inl e, w4)
                     | (Inr u2, w4) \<Rightarrow> (Inr None, w4)))))"

definition transfer :: "'s env \<Rightarrow> plan \<Rightarrow> 's world \<Rightarrow> 's branch option" where
  "transfer E p w =
     (if isDirectory p then
        (if depth p = ''0'' then Some (copyMarker E p w) else copyDirectory E p w)
      else Some (copyFile E p w))"

subsection \<open>The handler\<close>

text \<open>Lines 299 to 309: the mount's last use is refreshed and 201 is answered.\<close>

definition created :: "'s env \<Rightarrow> plan \<Rightarrow> 's world \<Rightarrow> (exn + response) \<times> 's world" where
  "created E p w =
     (case call (UpdateMountLastUsed (mount_id (the_mount p)))
             (updateMountLastUsed E (mount_id (the_mount p))) w of
        (Inl e, w1) \<Rightarrow> (Inl e, w1)
      | (Inr u, w1) \<Rightarrow> (Inr \<lparr>status = 201, content = NoBody\<rparr>, w1))"

text \<open>The body of the \<^verbatim>\<open>try\<close> from line 111 on.\<close>

definition execute :: "'s env \<Rightarrow> plan \<Rightarrow> 's world \<Rightarrow> ((exn + response) \<times> 's world) option" where
  "execute E p w =
     (case ensureParent E p w of
        (Inl e, w1) \<Rightarrow> Some (Inl e, w1)
      | (Inr u, w1) \<Rightarrow>
          (case destinationExists E p w1 of
             (Inl e, w2) \<Rightarrow> Some (Inl e, w2)
           | (Inr destExists, w2) \<Rightarrow>
               if destExists \<and> \<not> allowOverwrite p
               then Some (Inr \<lparr>status = 412, content = DestinationExists\<rparr>, w2)
               else (case transfer E p w2 of
                       None \<Rightarrow> None
                     | Some (Inl e, w3) \<Rightarrow> Some (Inl e, w3)
                     | Some (Inr (Some r), w3) \<Rightarrow> Some (Inr r, w3)
                     | Some (Inr None, w3) \<Rightarrow> Some (created E p w3))))"

text \<open>
  \<^verbatim>\<open>handleCopy\<close>: the response and the world after it, or \<open>None\<close> when the listing does
  not end. The \<^verbatim>\<open>catch\<close> of line 310 turns a thrown value into the response of
  \<^verbatim>\<open>handleWebDAVError\<close>.
\<close>

definition handleCopy :: "'s env \<Rightarrow> request \<Rightarrow> 's world \<Rightarrow> (response \<times> 's world) option" where
  "handleCopy E req w =
     (case validate E req of
        Inl r \<Rightarrow> Some (r, w)
      | Inr p \<Rightarrow>
          (case execute E p w of
             None \<Rightarrow> None
           | Some (Inl e, w1) \<Rightarrow> Some (handleWebDAVError E e, w1)
           | Some (Inr r, w1) \<Rightarrow> Some (r, w1)))"

subsection \<open>A bucket in memory\<close>

text \<open>
  The storage service and the helpers that work on it are not in the handler's file; the
  claims about the contents of the storage need them, and the definitions of this
  subsection follow the spec's words on them. A bucket is the list of its objects, key
  and body, in the order in which a listing returns them.
\<close>

type_synonym bucket = "(string \<times> string) list"

definition keysUnder :: "bucket \<Rightarrow> string \<Rightarrow> string list" where
  "keysUnder b prefix = filter (\<lambda>k. startsWith k prefix) (map fst b)"

definition notFound :: exn where
  "notFound = ServiceError (Some 404)"

definition noOutput :: s3_output where
  "noOutput = \<lparr>Contents = None, NextContinuationToken = None\<rparr>"

definition page :: "nat \<Rightarrow> nat \<Rightarrow> string list \<Rightarrow> s3_output" where
  "page n skip ks =
     \<lparr>Contents = (if drop skip ks = [] then None else Some (take n (drop skip ks))),
      NextContinuationToken =
        (if n < length (drop skip ks) then Some (replicate (skip + n) CHR ''x'') else None)\<rparr>"

text \<open>
  Modelled from the spec: the storage client (section 6: head, put, copy, delete and list
  with a continuation token, and a 404 that can be told from other failures). Head
  answers 404 for a missing key; put and copy write one key, and copy answers 404 for a
  missing source; a listing returns the keys that start with the prefix, in pages of
  \<open>n\<close>, with a token while more remain. The token spells the number of keys already
  returned.
\<close>

fun bucket_send :: "nat \<Rightarrow> command \<Rightarrow> bucket \<Rightarrow> (exn + s3_output) \<times> bucket" where
  "bucket_send n (HeadObjectCommand k) b =
     (case map_of b k of None \<Rightarrow> (Inl notFound, b) | Some v \<Rightarrow> (Inr noOutput, b))"
| "bucket_send n (PutObjectCommand k v ct cl) b = (Inr noOutput, AList.update k v b)"
| "bucket_send n (ListObjectsV2Command prefix tok) b =
     (Inr (page n (case tok of None \<Rightarrow> 0 | Some t \<Rightarrow> length t) (keysUnder b prefix)), b)"
| "bucket_send n (CopyObjectCommand src k) b =
     (case map_of b src of None \<Rightarrow> (Inl notFound, b)
      | Some v \<Rightarrow> (Inr noOutput, AList.update k v b))"
| "bucket_send n (DeleteObjectCommand k) b = (Inr noOutput, AList.delete k b)"

text \<open>
  Modelled from the spec: \<^verbatim>\<open>checkDirectoryExists\<close> (section 4.2). A directory exists
  when its marker does or any key under it does.
\<close>

definition bucket_checkDirectoryExists :: "string \<Rightarrow> bucket \<Rightarrow> (exn + bool) \<times> bucket" where
  "bucket_checkDirectoryExists dir b = (Inr (keysUnder b dir \<noteq> []), b)"

text \<open>
  Modelled from the spec: \<^verbatim>\<open>updateParentDirectoriesModifiedTime\<close> (section 4.4),
  \<^verbatim>\<open>clearCacheAfterWebDAVOperation\<close> (section 4.5) and \<^verbatim>\<open>updateMountLastUsed\<close>. They
  refresh modification markers, a cache and a time stamp of the mount; none of these is
  part of an object's body, so they leave the objects as they are.
\<close>

definition unchanged :: "bucket \<Rightarrow> (exn + unit) \<times> bucket" where
  "unchanged b = (Inr (), b)"

text \<open>An environment runs on a bucket when its five stateful collaborators are these.\<close>

definition onBucket :: "nat \<Rightarrow> bucket env \<Rightarrow> bool" where
  "onBucket n E =
     (0 < n \<and> send E = bucket_send n \<and>
      checkDirectoryExists E = bucket_checkDirectoryExists \<and>
      updateParentDirectoriesModifiedTime E = (\<lambda>k r. unchanged) \<and>
      clearCacheAfterWebDAVOperation E = (\<lambda>k d m. unchanged) \<and>
      updateMountLastUsed E = (\<lambda>m. unchanged))"

subsection \<open>A deployment\<close>

text \<open>
  The mount resolution, the two path functions and the error handler are not in the
  handler's file either. The theorems about every environment take them as they come;
  the examples run on the ones below.
\<close>

text \<open>
  Modelled from the spec: \<^verbatim>\<open>normalizeS3SubPath\<close> (section 4.1). A sub-path loses its
  duplicate separators and its leading one, gets a trailing separator when it is
  normalised as a directory, and follows the root prefix.
\<close>

fun collapse :: "string \<Rightarrow> string" where
  "collapse (a # b # s) =
     (if a = CHR ''/'' \<and> b = CHR ''/'' then collapse (b # s) else a # collapse (b # s))"
| "collapse s = s"

definition normalizeKey :: "string \<Rightarrow> s3_config \<Rightarrow> bool \<Rightarrow> string" where
  "normalizeKey sub cfg asDirectory =
     (let s = collapse sub;
          t = (if startsWith s ''/'' then drop 1 s else s)
      in rootPrefix cfg @ (if asDirectory \<and> t \<noteq> [] \<and> \<not> endsWith t ''/'' then t @ ''/'' else t))"

text \<open>
  Modelled from the spec: \<^verbatim>\<open>findMountPointByPath\<close> (section 4.1). A path resolves to
  the mount with the longest mount path that is a prefix of it, and to the rest of the
  path; the root is refused with 403 and the root signal, a path under no mount with
  404. Every principal has the capability.
\<close>

fun longestMount :: "(string \<times> mount) list \<Rightarrow> string \<Rightarrow> (string \<times> mount) option" where
  "longestMount [] p = None"
| "longestMount ((mp, m) # ms) p =
     (case longestMount ms p of
        None \<Rightarrow> (if p = mp \<or> startsWith p (mp @ ''/'') then Some (mp, m) else None)
      | Some (mp', m') \<Rightarrow>
          (if (p = mp \<or> startsWith p (mp @ ''/'')) \<and> length mp' < length mp
           then Some (mp, m) else Some (mp', m')))"

definition resolveMount :: "(string \<times> mount) list \<Rightarrow> string \<Rightarrow> mount_result" where
  "resolveMount ms p =
     (if p = ''/'' then
        \<lparr>error = Some \<lparr>err_status = 403, err_message = ''root''\<rparr>, isRoot = True,
         mount = None, subPath = []\<rparr>
      else case longestMount ms p of
        None \<Rightarrow>
          \<lparr>error = Some \<lparr>err_status = 404, err_message = ''no mount''\<rparr>, isRoot = False,
           mount = None, subPath = []\<rparr>
      | Some (mp, m) \<Rightarrow>
          \<lparr>error = None, isRoot = False, mount = Some m, subPath = drop (length mp) p\<rparr>)"

text \<open>
  Modelled from the spec: \<^verbatim>\<open>handleWebDAVError\<close> (section 7). A thrown value is answered
  with its HTTP status when that is an error status, and with 500 otherwise.
\<close>

definition errorResponse :: "exn \<Rightarrow> response" where
  "errorResponse e =
     \<lparr>status = (case e of ServiceError (Some c) \<Rightarrow> (if 400 \<le> c then c else 500)
                | _ \<Rightarrow> 500),
      content = NoBody\<rparr>"

text \<open>
  Two mounts, \<^verbatim>\<open>/m\<close> and \<^verbatim>\<open>/n\<close>, each on a configuration of its own without a root
  prefix, over a bucket that lists in pages of \<open>n\<close>. Modelled from the spec:
  \<^verbatim>\<open>parseDestinationPath\<close> (section 4.6); a Destination header in path form is its own
  path.
\<close>

definition deployment :: "nat \<Rightarrow> bucket env" where
  "deployment n =
     \<lparr>findMountPointByPath =
        resolveMount [(''/m'', \<lparr>mount_id = ''1'', storage_config_id = ''c1''\<rparr>),
                      (''/n'', \<lparr>mount_id = ''2'', storage_config_id = ''c2''\<rparr>)],
      parseDestinationPath = (\<lambda>d. d),
      s3_configs = map_of [(''c1'', \<lparr>bucket_name = ''b1'', root_prefix = None\<rparr>),
                           (''c2'', \<lparr>bucket_name = ''b2'', root_prefix = None\<rparr>)],
      normalizeS3SubPath = normalizeKey,
      checkDirectoryExists = bucket_checkDirectoryExists,
      send = bucket_send n,
      updateParentDirectoriesModifiedTime = (\<lambda>k r. unchanged),
      clearCacheAfterWebDAVOperation = (\<lambda>k d m. unchanged),
      updateMountLastUsed = (\<lambda>m. unchanged),
      handleWebDAVError = errorResponse\<rparr>"

definition copyRequest :: "string \<Rightarrow> string \<Rightarrow> request" where
  "copyRequest src dst = \<lparr>path = src, Destination = Some dst, Depth = None, Overwrite = None\<rparr>"

definition start :: "bucket \<Rightarrow> bucket world" where
  "start b = \<lparr>backend = b, trace = []\<rparr>"

text \<open>
  A service whose listings leave out the directory markers (keys that end in a
  separator), and is the bucket above otherwise. Here a listing can be empty although
  the head of the prefix itself succeeds, which the bucket above does not allow: its
  listing of a prefix returns the marker of the prefix.
\<close>

definition bucket_send_hiding_markers :: "nat \<Rightarrow> command \<Rightarrow> bucket \<Rightarrow> (exn + s3_output) \<times> bucket" where
  "bucket_send_hiding_markers n c b =
     (case c of
        ListObjectsV2Command prefix tok \<Rightarrow>
          (Inr (page n (case tok of None \<Rightarrow> 0 | Some t \<Rightarrow> length t)
                  (filter (\<lambda>k. \<not> endsWith k ''/'') (keysUnder b prefix))), b)
      | _ \<Rightarrow> bucket_send n c b)"

definition deploymentHidingMarkers :: "nat \<Rightarrow> bucket env" where
  "deploymentHidingMarkers n = (deployment n)\<lparr>send := bucket_send_hiding_markers n\<rparr>"

text \<open>
  An environment whose client heads and puts as the bucket does and whose cache call and
  mount refresh leave the objects as they are. Nothing is said of its listings.
\<close>

definition headsAndPutsOnBucket :: "bucket env \<Rightarrow> bool" where
  "headsAndPutsOnBucket E =
     ((\<forall>k b. send E (HeadObjectCommand k) b =
          (case map_of b k of None \<Rightarrow> (Inl notFound, b) | Some v \<Rightarrow> (Inr noOutput, b))) \<and>
      (\<forall>k v ct cl b. send E (PutObjectCommand k v ct cl) b =
          (Inr noOutput, AList.update k v b)) \<and>
      clearCacheAfterWebDAVOperation E = (\<lambda>k d m. unchanged) \<and>
      updateMountLastUsed E = (\<lambda>m. unchanged))"

subsection \<open>What the handler sends\<close>

text \<open>
  The calls a run adds to the trace, the key a command writes, and the commands that only
  add at the destination: no delete, a put of an empty body at the destination key or at
  its parent key, a copy to a key that starts with the destination key.
\<close>

definition newEvents :: "'s world \<Rightarrow> 's world \<Rightarrow> event list" where
  "newEvents w w' = drop (length (trace w)) (trace w')"

fun written :: "event \<Rightarrow> string option" where
  "written (Send (PutObjectCommand k v ct cl)) = Some k"
| "written (Send (CopyObjectCommand src k)) = Some k"
| "written (Send (DeleteObjectCommand k)) = Some k"
| "written ev = None"

fun additive :: "plan \<Rightarrow> event \<Rightarrow> bool" where
  "additive p (Send (DeleteObjectCommand k)) = False"
| "additive p (Send (PutObjectCommand k v ct cl)) =
     (v = [] \<and> (k = destS3SubPath p \<or> k = destParentPath (destS3SubPath p)))"
| "additive p (Send (CopyObjectCommand src k)) = startsWith k (destS3SubPath p)"
| "additive p ev = True"

definition extends :: "(event \<Rightarrow> bool) \<Rightarrow> 's world \<Rightarrow> 's world \<Rightarrow> bool" where
  "extends G w w' = (\<exists>evs. trace w' = trace w @ evs \<and> list_all G evs)"

text \<open>The copies in a list of calls, in their order: source key and written key.\<close>

fun copies :: "event list \<Rightarrow> (string \<times> string) list" where
  "copies [] = []"
| "copies (Send (CopyObjectCommand src k) # evs) = (src, k) # copies evs"
| "copies (ev # evs) = copies evs"

section \<open>Properties of the validation\<close>

lemma validate_cross_mount:
  assumes "error (findMountPointByPath E (path req)) = None"
    and "mount (findMountPointByPath E (path req)) = Some sm"
    and "parseDestinationPath E (Destination req) = Some d" and "d \<noteq> []"
    and "error (findMountPointByPath E d) = None"
    and "\<not> isRoot (findMountPointByPath E d)"
    and "mount (findMountPointByPath E d) = Some dm"
    and "mount_id sm \<noteq> mount_id dm"
  shows "validate E req = Inl \<lparr>status = 502, content = CrossMount\<rparr>"
proof -
  have "path req \<noteq> d" using assms(2,7,8) by auto
  then show ?thesis using assms by (simp add: validate_def truthy_def)
qed

text \<open>
  C5. When the source path resolves to a mount and the path of the Destination header
  resolves to a mount with another identifier, the handler answers 502 and returns the
  world as it found it: no collaborator was called, so nothing was transferred. Nothing
  is assumed about the Depth header, the configuration or the objects in the bucket.
\<close>

theorem cross_mount_502:
  assumes "error (findMountPointByPath E (path req)) = None"
    and "mount (findMountPointByPath E (path req)) = Some sm"
    and "parseDestinationPath E (Destination req) = Some d" and "d \<noteq> []"
    and "error (findMountPointByPath E d) = None"
    and "\<not> isRoot (findMountPointByPath E d)"
    and "mount (findMountPointByPath E d) = Some dm"
    and "mount_id sm \<noteq> mount_id dm"
  shows "handleCopy E req w = Some (\<lparr>status = 502, content = CrossMount\<rparr>, w)"
  using validate_cross_mount [OF assms] by (simp add: handleCopy_def)

theorem cross_mount_502_witness:
  "handleCopy (deployment 2) (copyRequest ''/m/a'' ''/n/a'') (start [(''a'', ''A'')]) =
     Some (\<lparr>status = 502, content = CrossMount\<rparr>, start [(''a'', ''A'')])"
proof -
  let ?E = "deployment 2" and ?req = "copyRequest ''/m/a'' ''/n/a''"
  have 1: "error (findMountPointByPath ?E (path ?req)) = None"
    by code_simp
  have 2: "mount (findMountPointByPath ?E (path ?req)) =
      Some \<lparr>mount_id = ''1'', storage_config_id = ''c1''\<rparr>"
    by code_simp
  have 3: "parseDestinationPath ?E (Destination ?req) = Some ''/n/a''"
    by code_simp
  have 4: "''/n/a'' \<noteq> []"
    by simp
  have 5: "error (findMountPointByPath ?E ''/n/a'') = None"
    by code_simp
  have 6: "\<not> isRoot (findMountPointByPath ?E ''/n/a'')"
    by code_simp
  have 7: "mount (findMountPointByPath ?E ''/n/a'') =
      Some \<lparr>mount_id = ''2'', storage_config_id = ''c2''\<rparr>"
    by code_simp
  have 8: "mount_id \<lparr>mount_id = ''1'', storage_config_id = ''c1''\<rparr> \<noteq>
      mount_id \<lparr>mount_id = ''2'', storage_config_id = ''c2''\<rparr>"
    by simp
  show ?thesis by (rule cross_mount_502 [OF 1 2 3 4 5 6 7 8])
qed

text \<open>
  C7. The handler parses the Destination header once the source path has resolved to a
  mount. When the parsed path equals the source path the answer is 400, and the world is
  returned as it was found: the trace has no new call, so no head, put, list or copy was
  sent. (An empty path is refused by the check before, with 400 as well.)
\<close>

theorem same_path_400:
  assumes "error (findMountPointByPath E (path req)) = None"
    and "parseDestinationPath E (Destination req) = Some (path req)"
  shows "handleCopy E req w =
     Some (\<lparr>status = 400,
            content = (if path req = [] then MissingDestinationHeader else SamePath)\<rparr>, w)"
  using assms by (simp add: handleCopy_def validate_def truthy_def)

theorem same_path_400_witness:
  "handleCopy (deployment 2) (copyRequest ''/m/a'' ''/m/a'') (start [(''a'', ''A'')]) =
     Some (\<lparr>status = 400, content = SamePath\<rparr>, start [(''a'', ''A'')])"
proof -
  let ?E = "deployment 2" and ?req = "copyRequest ''/m/a'' ''/m/a''"
  have 1: "error (findMountPointByPath ?E (path ?req)) = None"
    by code_simp
  have 2: "parseDestinationPath ?E (Destination ?req) = Some (path ?req)"
    by code_simp
  have 3: "path ?req \<noteq> []"
    by code_simp
  show ?thesis
    using same_path_400 [OF 1 2, of "start [(''a'', ''A'')]"] 3 by simp
qed

text \<open>
  C10. Line 101 computes the directory flag from the source path alone, and lines 104
  and 105 pass this one flag to the normalisation of both keys: whatever the Destination
  header is, its key is normalised as a directory exactly when the source path ends in a
  separator.
\<close>

theorem directory_flag_from_source:
  assumes "validate E req = Inr p"
  shows "isDirectory p = endsWith (path req) ''/'' \<and>
     sourceS3SubPath p =
       normalizeS3SubPath E (subPath (findMountPointByPath E (path req))) (s3Config p)
         (endsWith (path req) ''/'') \<and>
     (\<exists>d. parseDestinationPath E (Destination req) = Some d \<and>
       destS3SubPath p =
         normalizeS3SubPath E (subPath (findMountPointByPath E d)) (s3Config p)
           (endsWith (path req) ''/''))"
  using assms
  by (auto simp: validate_def Let_def truthy_def split: option.splits if_splits)

theorem directory_flag_from_source_witness:
  "validate (deployment 2) (copyRequest ''/m/a'' ''/m/c/'') =
     Inr \<lparr>the_mount = \<lparr>mount_id = ''1'', storage_config_id = ''c1''\<rparr>,
          s3Config = \<lparr>bucket_name = ''b1'', root_prefix = None\<rparr>,
          isDirectory = False, sourceS3SubPath = ''a'', destS3SubPath = ''c/'',
          depth = ''infinity'', allowOverwrite = True\<rparr> \<and>
   \<not> endsWith (path (copyRequest ''/m/a'' ''/m/c/'')) ''/'' \<and>
   parseDestinationPath (deployment 2) (Destination (copyRequest ''/m/a'' ''/m/c/'')) =
     Some ''/m/c/'' \<and>
   normalizeS3SubPath (deployment 2) (subPath (findMountPointByPath (deployment 2) ''/m/c/''))
     \<lparr>bucket_name = ''b1'', root_prefix = None\<rparr> False = ''c/''"
proof -
  have 1: "validate (deployment 2) (copyRequest ''/m/a'' ''/m/c/'') =
     Inr \<lparr>the_mount = \<lparr>mount_id = ''1'', storage_config_id = ''c1''\<rparr>,
          s3Config = \<lparr>bucket_name = ''b1'', root_prefix = None\<rparr>,
          isDirectory = False, sourceS3SubPath = ''a'', destS3SubPath = ''c/'',
          depth = ''infinity'', allowOverwrite = True\<rparr>"
    by code_simp
  have 2: "parseDestinationPath (deployment 2) (Destination (copyRequest ''/m/a'' ''/m/c/'')) =
     Some ''/m/c/''"
    by code_simp
  have 3: "\<not> endsWith (path (copyRequest ''/m/a'' ''/m/c/'')) ''/''"
    by code_simp
  show ?thesis
    using directory_flag_from_source [OF 1] 1 2 3 by simp
qed

section \<open>The calls of a run\<close>

lemma extends_refl: "extends G w w"
  by (simp add: extends_def)

lemma extends_trans: "extends G w w1 \<Longrightarrow> extends G w1 w2 \<Longrightarrow> extends G w w2"
  by (auto simp: extends_def)

lemma extends_newEvents: "extends G w w' \<Longrightarrow> list_all G (newEvents w w')"
  by (auto simp: extends_def newEvents_def)

lemma call_trace: "call ev f w = (r, w') \<Longrightarrow> trace w' = trace w @ [ev]"
  by (auto simp: call_def split: prod.splits)

lemma s3_trace: "s3 E c w = (r, w') \<Longrightarrow> trace w' = trace w @ [Send c]"
  by (simp add: s3_def call_trace)

lemma call_extends: "call ev f w = (r, w') \<Longrightarrow> G ev \<Longrightarrow> extends G w w'"
  by (auto simp: extends_def dest: call_trace)

lemma s3_extends: "s3 E c w = (r, w') \<Longrightarrow> G (Send c) \<Longrightarrow> extends G w w'"
  by (auto simp: extends_def dest: s3_trace)

lemma ensureParent_extends:
  assumes "ensureParent E p w = (r, w')"
    and "G (CheckDirectoryExists (destParentPath (destS3SubPath p)))"
    and "G (Send (directoryMarker (destParentPath (destS3SubPath p))))"
  shows "extends G w w'"
  using assms
  by (auto simp: ensureParent_def extends_refl split: if_splits prod.splits sum.splits
      intro: extends_trans call_extends s3_extends)

lemma destinationExists_extends:
  assumes "destinationExists E p w = (r, w')" and "G (Send (HeadObjectCommand (destS3SubPath p)))"
  shows "extends G w w'"
  using assms
  by (auto simp: destinationExists_def split: if_splits prod.splits sum.splits
      intro: s3_extends)


lemma listObjects_extends_aux:
  assumes "listObjects E prefix objects tok w = Some y"
  shows "(\<forall>t. G (Send (ListObjectsV2Command prefix t))) \<longrightarrow> extends G w (snd y)"
proof (rule listObjects.raw_induct
    [where P = "\<lambda>E prefix objects tok w y.
       (\<forall>t. G (Send (ListObjectsV2Command prefix t))) \<longrightarrow> extends G w (snd y)",
     OF _ assms])
  fix lo :: "'a env \<Rightarrow> string \<Rightarrow> string list \<Rightarrow> string option \<Rightarrow> 'a world \<Rightarrow>
      ((exn + string list) \<times> 'a world) option"
  fix E prefix objects tok w y
  assume IH: "\<And>E prefix objects tok w y. lo E prefix objects tok w = Some y \<Longrightarrow>
      (\<forall>t. G (Send (ListObjectsV2Command prefix t))) \<longrightarrow> extends G w (snd y)"
  assume body: "(case s3 E (ListObjectsV2Command prefix tok) w of
        (Inl e, w1) \<Rightarrow> Some (Inl e, w1)
      | (Inr listResponse, w1) \<Rightarrow>
          if truthy (NextContinuationToken listResponse)
          then lo E prefix
                 (case Contents listResponse of None \<Rightarrow> objects | Some cs \<Rightarrow> objects @ cs)
                 (NextContinuationToken listResponse) w1
          else Some (Inr (case Contents listResponse of None \<Rightarrow> objects
                          | Some cs \<Rightarrow> objects @ cs), w1)) = Some y"
  show "(\<forall>t. G (Send (ListObjectsV2Command prefix t))) \<longrightarrow> extends G w (snd y)"
  proof
    assume G: "\<forall>t. G (Send (ListObjectsV2Command prefix t))"
    obtain r w1 where s: "s3 E (ListObjectsV2Command prefix tok) w = (r, w1)"
      by (cases "s3 E (ListObjectsV2Command prefix tok) w")
    have e1: "extends G w w1"
      using s3_extends [OF s] G by blast
    show "extends G w (snd y)"
    proof (cases r)
      case (Inl e)
      with body s have "y = (Inl e, w1)" by simp
      with e1 show ?thesis by simp
    next
      case (Inr out)
      show ?thesis
      proof (cases "truthy (NextContinuationToken out)")
        case True
        with body s Inr have
          "lo E prefix (case Contents out of None \<Rightarrow> objects | Some cs \<Rightarrow> objects @ cs)
             (NextContinuationToken out) w1 = Some y"
          by simp
        from IH [OF this] G have "extends G w1 (snd y)" by blast
        with e1 show ?thesis by (rule extends_trans)
      next
        case False
        with body s Inr have "snd y = w1" by auto
        with e1 show ?thesis by simp
      qed
    qed
  qed
qed

lemma listObjects_extends:
  assumes "listObjects E prefix objects tok w = Some (r, w')"
    and "\<And>t. G (Send (ListObjectsV2Command prefix t))"
  shows "extends G w w'"
  using listObjects_extends_aux [OF assms(1), of G] assms(2) by simp

lemma copyObjects_extends:
  assumes "copyObjects E p objects w = (r, w')"
    and "\<And>k. G (Send (CopyObjectCommand k (destS3SubPath p @ drop (length (sourceS3SubPath p)) k)))"
  shows "extends G w w'"
  using assms(1)
proof (induction objects arbitrary: w)
  case Nil
  then show ?case by (simp add: extends_refl)
next
  case (Cons k ks)
  obtain r1 w1 where s: "s3 E (CopyObjectCommand k
      (destS3SubPath p @ drop (length (sourceS3SubPath p)) k)) w = (r1, w1)"
    by (cases "s3 E (CopyObjectCommand k
      (destS3SubPath p @ drop (length (sourceS3SubPath p)) k)) w")
  have e1: "extends G w w1"
    using s3_extends [OF s] assms(2) by blast
  show ?case
  proof (cases r1)
    case (Inl e)
    with Cons.prems s have "w' = w1" by simp
    with e1 show ?thesis by simp
  next
    case (Inr out)
    with Cons.prems s have "copyObjects E p ks w1 = (r, w')" by simp
    from Cons.IH [OF this] e1 show ?thesis by (blast intro: extends_trans)
  qed
qed


lemma additive_ensureParent:
  "ensureParent E p w = (r, w') \<Longrightarrow> extends (additive p) w w'"
  by (erule ensureParent_extends) (simp_all add: directoryMarker_def)

lemma additive_destinationExists:
  "destinationExists E p w = (r, w') \<Longrightarrow> extends (additive p) w w'"
  by (erule destinationExists_extends) simp

lemma additive_clearCache:
  "clearCache E p d w = (r, w') \<Longrightarrow> extends (additive p) w w'"
  unfolding clearCache_def by (erule call_extends) simp

lemma additive_touchParents:
  "touchParents E p w = (r, w') \<Longrightarrow> extends (additive p) w w'"
  unfolding touchParents_def by (erule call_extends) simp

lemma additive_created:
  "created E p w = (r, w') \<Longrightarrow> extends (additive p) w w'"
  by (auto simp: created_def split: prod.splits sum.splits intro: call_extends)

lemma additive_put:
  "s3 E (emptyObject (destS3SubPath p)) w = (r, w') \<Longrightarrow> extends (additive p) w w'"
  by (erule s3_extends) (simp add: emptyObject_def)

lemma additive_head:
  "s3 E (HeadObjectCommand k) w = (r, w') \<Longrightarrow> extends (additive p) w w'"
  by (erule s3_extends) simp

lemma additive_copyMarker:
  "copyMarker E p w = (r, w') \<Longrightarrow> extends (additive p) w w'"
  by (auto simp: copyMarker_def split: prod.splits sum.splits
      intro: additive_put extends_trans [OF additive_put additive_clearCache])

lemma additive_copyEmptyDirectory:
  assumes "copyEmptyDirectory E p w = (r, w')"
  shows "extends (additive p) w w'"
proof -
  obtain r1 w1 where 1: "s3 E (HeadObjectCommand (sourceS3SubPath p)) w = (r1, w1)"
    by (cases "s3 E (HeadObjectCommand (sourceS3SubPath p)) w")
  obtain r2 w2 where 2: "s3 E (emptyObject (destS3SubPath p)) w1 = (r2, w2)"
    by (cases "s3 E (emptyObject (destS3SubPath p)) w1")
  obtain r3 w3 where 3: "clearCache E p True w2 = (r3, w3)"
    by (cases "clearCache E p True w2")
  have e1: "extends (additive p) w w1"
    using 1 by (rule additive_head)
  have e2: "extends (additive p) w w2"
    using e1 additive_put [OF 2] by (rule extends_trans)
  have e3: "extends (additive p) w w3"
    using e2 additive_clearCache [OF 3] by (rule extends_trans)
  have "w' = w1 \<or> w' = w2 \<or> w' = w3"
    using assms 1 2 3
    by (auto simp: copyEmptyDirectory_def sourceDirectoryMissing_def
        split: sum.splits if_splits)
  with e1 e2 e3 show ?thesis by auto
qed

lemma additive_copyObjects:
  "copyObjects E p objects w = (r, w') \<Longrightarrow> extends (additive p) w w'"
  by (erule copyObjects_extends) (simp add: startsWith_def)

lemma additive_copyListed:
  assumes "copyListed E p objects w = (r, w')"
  shows "extends (additive p) w w'"
proof -
  obtain r1 w1 where 1: "copyObjects E p objects w = (r1, w1)"
    by (cases "copyObjects E p objects w")
  obtain r2 w2 where 2: "touchParents E p w1 = (r2, w2)"
    by (cases "touchParents E p w1")
  obtain r3 w3 where 3: "clearCache E p True w2 = (r3, w3)"
    by (cases "clearCache E p True w2")
  have e1: "extends (additive p) w w1"
    using 1 by (rule additive_copyObjects)
  have e2: "extends (additive p) w w2"
    using e1 additive_touchParents [OF 2] by (rule extends_trans)
  have e3: "extends (additive p) w w3"
    using e2 additive_clearCache [OF 3] by (rule extends_trans)
  have "w' = w1 \<or> w' = w2 \<or> w' = w3"
    using assms 1 2 3 by (auto simp: copyListed_def split: sum.splits)
  with e1 e2 e3 show ?thesis by auto
qed

lemma additive_copyDirectory:
  assumes "copyDirectory E p w = Some (r, w')"
  shows "extends (additive p) w w'"
proof -
  obtain r1 w1 where 1: "listObjects E (sourceS3SubPath p) [] None w = Some (r1, w1)"
    using assms by (auto simp: copyDirectory_def split: option.splits)
  have e1: "extends (additive p) w w1"
    using 1 by (rule listObjects_extends) simp
  show ?thesis
  proof (cases r1)
    case (Inl e)
    with assms 1 have "w' = w1" by (simp add: copyDirectory_def)
    with e1 show ?thesis by simp
  next
    case (Inr objects)
    with assms 1 have "copyEmptyDirectory E p w1 = (r, w') \<or> copyListed E p objects w1 = (r, w')"
      by (auto simp: copyDirectory_def split: if_splits)
    then have "extends (additive p) w1 w'"
      by (auto intro: additive_copyEmptyDirectory additive_copyListed)
    with e1 show ?thesis by (rule extends_trans)
  qed
qed

lemma additive_copyFile:
  assumes "copyFile E p w = (r, w')"
  shows "extends (additive p) w w'"
proof -
  obtain r1 w1 where 1: "s3 E (HeadObjectCommand (sourceS3SubPath p)) w = (r1, w1)"
    by (cases "s3 E (HeadObjectCommand (sourceS3SubPath p)) w")
  obtain r2 w2 where 2:
    "s3 E (CopyObjectCommand (sourceS3SubPath p) (destS3SubPath p)) w1 = (r2, w2)"
    by (cases "s3 E (CopyObjectCommand (sourceS3SubPath p) (destS3SubPath p)) w1")
  obtain r3 w3 where 3: "touchParents E p w2 = (r3, w3)"
    by (cases "touchParents E p w2")
  obtain r4 w4 where 4: "clearCache E p False w3 = (r4, w4)"
    by (cases "clearCache E p False w3")
  have e1: "extends (additive p) w w1"
    using 1 by (rule additive_head)
  have "extends (additive p) w1 w2"
    using 2 by (rule s3_extends) (simp add: startsWith_def)
  with e1 have e2: "extends (additive p) w w2"
    by (rule extends_trans)
  have e3: "extends (additive p) w w3"
    using e2 additive_touchParents [OF 3] by (rule extends_trans)
  have e4: "extends (additive p) w w4"
    using e3 additive_clearCache [OF 4] by (rule extends_trans)
  have "w' = w1 \<or> w' = w2 \<or> w' = w3 \<or> w' = w4"
    using assms 1 2 3 4 by (auto simp: copyFile_def split: sum.splits if_splits)
  with e1 e2 e3 e4 show ?thesis by auto
qed

lemma additive_transfer:
  "transfer E p w = Some (r, w') \<Longrightarrow> extends (additive p) w w'"
  by (auto simp: transfer_def split: if_splits
      intro: additive_copyMarker additive_copyDirectory additive_copyFile)

lemma additive_execute:
  assumes "execute E p w = Some (r, w')"
  shows "extends (additive p) w w'"
proof -
  obtain r1 w1 where 1: "ensureParent E p w = (r1, w1)"
    by (cases "ensureParent E p w")
  obtain r2 w2 where 2: "destinationExists E p w1 = (r2, w2)"
    by (cases "destinationExists E p w1")
  have e1: "extends (additive p) w w1"
    using 1 by (rule additive_ensureParent)
  have e2: "extends (additive p) w w2"
    using e1 additive_destinationExists [OF 2] by (rule extends_trans)
  show ?thesis
  proof (cases "w' = w1 \<or> w' = w2")
    case True
    with e1 e2 show ?thesis by auto
  next
    case False
    with assms 1 2 obtain r3 w3 where 3: "transfer E p w2 = Some (r3, w3)"
      and 4: "w' = w3 \<or> created E p w3 = (r, w')"
      by (auto simp: execute_def split: sum.splits if_splits option.splits)
    have e3: "extends (additive p) w w3"
      using e2 additive_transfer [OF 3] by (rule extends_trans)
    from 4 e3 show ?thesis
      by (auto intro: extends_trans additive_created)
  qed
qed

lemma additive_handleCopy:
  assumes "validate E req = Inr p" and "handleCopy E req w = Some (r, w')"
  shows "extends (additive p) w w'"
proof -
  from assms obtain r1 where "execute E p w = Some (r1, w')"
    by (auto simp: handleCopy_def split: option.splits sum.splits)
  then show ?thesis by (rule additive_execute)
qed

lemma startsWith_comparable:
  assumes "startsWith k a" and "startsWith k b"
  shows "startsWith a b \<or> startsWith b a"
proof (cases "length a \<le> length b")
  case True
  have "take (length a) b = take (length a) (take (length b) k)"
    using assms(2) by (simp add: startsWith_def)
  also have "\<dots> = take (length a) k"
    using True by (simp add: min_def)
  finally show ?thesis using assms(1) by (simp add: startsWith_def)
next
  case False
  have "take (length b) a = take (length b) (take (length a) k)"
    using assms(1) by (simp add: startsWith_def)
  also have "\<dots> = take (length b) k"
    using False by (simp add: min_def)
  finally show ?thesis using assms(2) by (simp add: startsWith_def)
qed

lemma startsWith_refl: "startsWith k k"
  by (simp add: startsWith_def)

lemma startsWith_trans: "startsWith a b \<Longrightarrow> startsWith b c \<Longrightarrow> startsWith a c"
proof -
  assume 1: "startsWith a b" and 2: "startsWith b c"
  have "length (take (length c) b) = length c"
    using 2 by (simp add: startsWith_def)
  then have l: "length c \<le> length b"
    by simp
  have "take (length c) a = take (length c) (take (length b) a)"
    using l by (simp add: min_def)
  also have "\<dots> = c" using 1 2 by (simp add: startsWith_def)
  finally show ?thesis by (simp add: startsWith_def)
qed

lemma startsWith_destParentPath: "startsWith d (destParentPath d)"
  by (simp add: startsWith_def destParentPath_def min_def)

lemma additive_outside_source:
  assumes "additive p ev" and "written ev = Some k"
    and "\<not> startsWith (destS3SubPath p) (sourceS3SubPath p)"
    and "\<not> startsWith (sourceS3SubPath p) (destS3SubPath p)"
  shows "\<not> startsWith k (sourceS3SubPath p)"
proof
  assume k: "startsWith k (sourceS3SubPath p)"
  have "startsWith (destS3SubPath p) k \<or> startsWith k (destS3SubPath p)"
    using assms(1,2)
    by (cases ev rule: written.cases)
      (auto simp: startsWith_refl startsWith_destParentPath)
  then show False
  proof
    assume "startsWith (destS3SubPath p) k"
    then have "startsWith (destS3SubPath p) (sourceS3SubPath p)"
      using k by (rule startsWith_trans)
    with assms(3) show False by simp
  next
    assume "startsWith k (destS3SubPath p)"
    with k have "startsWith (sourceS3SubPath p) (destS3SubPath p) \<or>
        startsWith (destS3SubPath p) (sourceS3SubPath p)"
      by (rule startsWith_comparable)
    with assms(3,4) show False by simp
  qed
qed

text \<open>
  C8, as amended. On every path on which the handler returns, it sends no delete, it puts
  only empty bodies, at the destination key or at its parent key, and it copies only to
  keys that start with the destination key. When neither the source key nor the
  destination key is a prefix of the other, no put and no copy of the handler writes a
  key that starts with the source key. (With a destination inside the source, or above
  it, a copy can overwrite an object of the source: see the counterexample.)
\<close>

theorem copy_commands_additive:
  assumes "validate E req = Inr p" and "handleCopy E req w = Some (r, w')"
  shows "(\<forall>k. Send (DeleteObjectCommand k) \<notin> set (newEvents w w')) \<and>
     list_all (additive p) (newEvents w w') \<and>
     (\<not> startsWith (destS3SubPath p) (sourceS3SubPath p) \<and>
      \<not> startsWith (sourceS3SubPath p) (destS3SubPath p) \<longrightarrow>
        list_all (\<lambda>ev. case written ev of None \<Rightarrow> True
                      | Some k \<Rightarrow> \<not> startsWith k (sourceS3SubPath p)) (newEvents w w'))"
proof -
  have a: "list_all (additive p) (newEvents w w')"
    using additive_handleCopy [OF assms] by (rule extends_newEvents)
  have "\<forall>k. Send (DeleteObjectCommand k) \<notin> set (newEvents w w')"
    using a by (auto simp: list_all_iff)
  moreover have "list_all (\<lambda>ev. case written ev of None \<Rightarrow> True
        | Some k \<Rightarrow> \<not> startsWith k (sourceS3SubPath p)) (newEvents w w')"
    if "\<not> startsWith (destS3SubPath p) (sourceS3SubPath p)"
      and "\<not> startsWith (sourceS3SubPath p) (destS3SubPath p)"
    using a additive_outside_source [OF _ _ that]
    by (auto simp: list_all_iff split: option.splits)
  ultimately show ?thesis using a by blast
qed

theorem copy_commands_additive_witness:
  "list_all
     (additive \<lparr>the_mount = \<lparr>mount_id = ''1'', storage_config_id = ''c1''\<rparr>,
          s3Config = \<lparr>bucket_name = ''b1'', root_prefix = None\<rparr>,
          isDirectory = True, sourceS3SubPath = ''a/'', destS3SubPath = ''c/'',
          depth = ''infinity'', allowOverwrite = True\<rparr>)
     [CheckDirectoryExists ''c/'', Send (directoryMarker ''c/''),
      Send (HeadObjectCommand ''c/''), Send (ListObjectsV2Command ''a/'' None),
      Send (CopyObjectCommand ''a/x'' ''c/x''),
      UpdateParentDirectoriesModifiedTime ''c/'' [],
      ClearCache ''c/'' True ''1'', UpdateMountLastUsed ''1''] \<and>
   list_all (\<lambda>ev. case written ev of None \<Rightarrow> True | Some k \<Rightarrow> \<not> startsWith k ''a/'')
     [CheckDirectoryExists ''c/'', Send (directoryMarker ''c/''),
      Send (HeadObjectCommand ''c/''), Send (ListObjectsV2Command ''a/'' None),
      Send (CopyObjectCommand ''a/x'' ''c/x''),
      UpdateParentDirectoriesModifiedTime ''c/'' [],
      ClearCache ''c/'' True ''1'', UpdateMountLastUsed ''1'']"
proof -
  let ?p = "\<lparr>the_mount = \<lparr>mount_id = ''1'', storage_config_id = ''c1''\<rparr>,
          s3Config = \<lparr>bucket_name = ''b1'', root_prefix = None\<rparr>,
          isDirectory = True, sourceS3SubPath = ''a/'', destS3SubPath = ''c/'',
          depth = ''infinity'', allowOverwrite = True\<rparr>"
  let ?evs = "[CheckDirectoryExists ''c/'', Send (directoryMarker ''c/''),
      Send (HeadObjectCommand ''c/''), Send (ListObjectsV2Command ''a/'' None),
      Send (CopyObjectCommand ''a/x'' ''c/x''),
      UpdateParentDirectoriesModifiedTime ''c/'' [],
      ClearCache ''c/'' True ''1'', UpdateMountLastUsed ''1'']"
  let ?w' = "\<lparr>backend = [(''a/x'', ''A''), (''c/'', []), (''c/x'', ''A'')], trace = ?evs\<rparr>"
  have 1: "validate (deployment 2) (copyRequest ''/m/a/'' ''/m/c/'') = Inr ?p"
    by code_simp
  have 2: "handleCopy (deployment 2) (copyRequest ''/m/a/'' ''/m/c/'') (start [(''a/x'', ''A'')]) =
      Some (\<lparr>status = 201, content = NoBody\<rparr>, ?w')"
    by code_simp
  have 3: "newEvents (start [(''a/x'', ''A'')]) ?w' = ?evs"
    by (simp add: newEvents_def start_def)
  have 4: "\<not> startsWith (destS3SubPath ?p) (sourceS3SubPath ?p)"
    by code_simp
  have 5: "\<not> startsWith (sourceS3SubPath ?p) (destS3SubPath ?p)"
    by code_simp
  show ?thesis
    using copy_commands_additive [OF 1 2] 3 4 5 by (simp add: directoryMarker_def)
qed

text \<open>
  A copy of \<^verbatim>\<open>/m/a/b/\<close> to \<^verbatim>\<open>/m/a/\<close>: the copy of \<^verbatim>\<open>a/b/b/x\<close> writes the key
  \<^verbatim>\<open>a/b/x\<close>, an object of the source, whose body \<open>A\<close> is lost before it is copied.
\<close>

theorem copy_above_source_overwrites_source:
  "handleCopy (deployment 2) (copyRequest ''/m/a/b/'' ''/m/a/'')
       (start [(''a/b/b/x'', ''B''), (''a/b/x'', ''A'')]) =
     Some (\<lparr>status = 201, content = NoBody\<rparr>,
       \<lparr>backend = [(''a/b/b/x'', ''B''), (''a/b/x'', ''B''), (''a/x'', ''B'')],
        trace =
          [CheckDirectoryExists ''a/'', Send (HeadObjectCommand ''a/''),
           Send (ListObjectsV2Command ''a/b/'' None),
           Send (CopyObjectCommand ''a/b/b/x'' ''a/b/x''),
           Send (CopyObjectCommand ''a/b/x'' ''a/x''),
           UpdateParentDirectoriesModifiedTime ''a/'' [],
           ClearCache ''a/'' True ''1'', UpdateMountLastUsed ''1'']\<rparr>)"
  by code_simp

section \<open>Copying a directory marker\<close>

lemma ensureParent_trace:
  assumes "ensureParent E p w = (r, w')"
  shows "\<exists>pre. trace w' = trace w @ pre \<and>
     set pre \<subseteq> {CheckDirectoryExists (destParentPath (destS3SubPath p)),
                Send (directoryMarker (destParentPath (destS3SubPath p)))}"
proof -
  have "extends (\<lambda>ev. ev = CheckDirectoryExists (destParentPath (destS3SubPath p)) \<or>
      ev = Send (directoryMarker (destParentPath (destS3SubPath p)))) w w'"
    using assms by (rule ensureParent_extends) simp_all
  then show ?thesis
    by (auto simp: extends_def list_all_iff)
qed

lemma destinationExists_trace:
  "destinationExists E p w = (r, w') \<Longrightarrow>
     trace w' = trace w @ [Send (HeadObjectCommand (destS3SubPath p))]"
  by (auto simp: destinationExists_def split: prod.splits sum.splits if_splits dest: s3_trace)

lemma copyMarker_result:
  assumes "copyMarker E p w = (Inr x, w')"
  shows "x = None \<and>
     trace w' = trace w @ [Send (emptyObject (destS3SubPath p)),
                           ClearCache (destS3SubPath p) True (mount_id (the_mount p))]"
  using assms
  by (auto simp: copyMarker_def clearCache_def split: prod.splits sum.splits
      dest!: s3_trace call_trace)

lemma created_result:
  assumes "created E p w = (Inr r, w')"
  shows "r = \<lparr>status = 201, content = NoBody\<rparr> \<and>
     trace w' = trace w @ [UpdateMountLastUsed (mount_id (the_mount p))]"
  using assms
  by (auto simp: created_def split: prod.splits sum.splits dest!: call_trace)

lemma handleCopy_created:
  assumes "validate E req = Inr p" and "handleCopy E req w = Some (r, w')"
    and "status r = 201" and "\<forall>e. status (handleWebDAVError E e) \<noteq> 201"
  shows "execute E p w = Some (Inr r, w')"
  using assms
  by (auto simp: handleCopy_def split: option.splits sum.splits)

lemma errorResponse_not_created: "status (errorResponse e) \<noteq> 201"
  by (auto simp: errorResponse_def split: exn.splits option.splits)

text \<open>
  C2. The spec has the timestamps of the ancestors refreshed once after every successful
  copy. The branches for a file and for a listed directory call
  \<^verbatim>\<open>updateParentDirectoriesModifiedTime\<close> after their copies; the branches for
  \<^verbatim>\<open>Depth: 0\<close> and for the empty directory put the marker and clear the cache, and do
  not call it. Here a directory is copied with \<^verbatim>\<open>Depth: 0\<close> to \<^verbatim>\<open>/m/c/d/\<close>: the answer
  is 201, and the trace of the run has no call that refreshes the ancestor \<^verbatim>\<open>c/\<close>.
\<close>

theorem depth0_copy_skips_timestamps:
  "handleCopy (deployment 2) ((copyRequest ''/m/a/'' ''/m/c/d/'')\<lparr>Depth := Some ''0''\<rparr>)
       (start [(''a/'', []), (''a/x'', ''A''), (''c/'', [])]) =
     Some (\<lparr>status = 201, content = NoBody\<rparr>,
       \<lparr>backend = [(''a/'', []), (''a/x'', ''A''), (''c/'', []), (''c/d/'', [])],
        trace =
          [CheckDirectoryExists ''c/d/'', Send (directoryMarker ''c/d/''),
           Send (HeadObjectCommand ''c/d/''), Send (emptyObject ''c/d/''),
           ClearCache ''c/d/'' True ''1'', UpdateMountLastUsed ''1'']\<rparr>)"
  by code_simp

section \<open>The empty listing\<close>

lemma empty_listing_steps:
  assumes "validate E req = Inr p" and "isDirectory p" and "depth p \<noteq> ''0''"
    and "ensureParent E p w = (Inr (), w1)"
    and "destinationExists E p w1 = (Inr destExists, w2)"
    and "allowOverwrite p \<or> \<not> destExists"
    and "listObjects E (sourceS3SubPath p) [] None w2 = Some (Inr [], w3)"
    and "s3 E (HeadObjectCommand (sourceS3SubPath p)) w3 = (h, w4)"
  shows "(\<forall>e. h = Inl e \<and> is404 e \<longrightarrow>
            handleCopy E req w =
              Some (\<lparr>status = 404, content = SourceDirectoryMissing\<rparr>, w4)) \<and>
         (\<forall>out out' r w5 w6 w7.
            h = Inr out \<and>
            s3 E (emptyObject (destS3SubPath p)) w4 = (Inr out', w5) \<and>
            clearCache E p True w5 = (Inr (), w6) \<and>
            created E p w6 = (Inr r, w7) \<longrightarrow>
            handleCopy E req w = Some (\<lparr>status = 201, content = NoBody\<rparr>, w7) \<and>
            newEvents w3 w7 =
              [Send (HeadObjectCommand (sourceS3SubPath p)),
               Send (emptyObject (destS3SubPath p)),
               ClearCache (destS3SubPath p) True (mount_id (the_mount p)),
               UpdateMountLastUsed (mount_id (the_mount p))])"
proof (intro conjI allI impI)
  fix e
  assume "h = Inl e \<and> is404 e"
  then have "copyEmptyDirectory E p w3 =
      (Inr (Some \<lparr>status = 404, content = SourceDirectoryMissing\<rparr>), w4)"
    using assms(8) by (simp add: copyEmptyDirectory_def sourceDirectoryMissing_def)
  then have "transfer E p w2 =
      Some (Inr (Some \<lparr>status = 404, content = SourceDirectoryMissing\<rparr>), w4)"
    using assms(2,3,7) by (simp add: transfer_def copyDirectory_def)
  then have "execute E p w = Some (Inr \<lparr>status = 404, content = SourceDirectoryMissing\<rparr>, w4)"
    using assms(4,5,6) by (auto simp: execute_def)
  then show "handleCopy E req w =
      Some (\<lparr>status = 404, content = SourceDirectoryMissing\<rparr>, w4)"
    using assms(1) by (simp add: handleCopy_def)
next
  fix out out' r w5 w6 w7
  assume a: "h = Inr out \<and>
            s3 E (emptyObject (destS3SubPath p)) w4 = (Inr out', w5) \<and>
            clearCache E p True w5 = (Inr (), w6) \<and>
            created E p w6 = (Inr r, w7)"
  then have "copyEmptyDirectory E p w3 = (Inr None, w6)"
    using assms(8) by (simp add: copyEmptyDirectory_def)
  then have "transfer E p w2 = Some (Inr None, w6)"
    using assms(2,3,7) by (simp add: transfer_def copyDirectory_def)
  then have "execute E p w = Some (Inr r, w7)"
    using assms(4,5,6) a by (auto simp: execute_def)
  moreover have r: "r = \<lparr>status = 201, content = NoBody\<rparr>" and
    t7: "trace w7 = trace w6 @ [UpdateMountLastUsed (mount_id (the_mount p))]"
    using created_result [of E p w6 r w7] a by simp_all
  ultimately show "handleCopy E req w = Some (\<lparr>status = 201, content = NoBody\<rparr>, w7)"
    using assms(1) by (simp add: handleCopy_def)
  have t4: "trace w4 = trace w3 @ [Send (HeadObjectCommand (sourceS3SubPath p))]"
    using assms(8) by (rule s3_trace)
  have t5: "trace w5 = trace w4 @ [Send (emptyObject (destS3SubPath p))]"
    using a by (auto dest: s3_trace)
  have t6: "trace w6 = trace w5 @
      [ClearCache (destS3SubPath p) True (mount_id (the_mount p))]"
    using a by (auto simp: clearCache_def dest: call_trace)
  show "newEvents w3 w7 =
              [Send (HeadObjectCommand (sourceS3SubPath p)),
               Send (emptyObject (destS3SubPath p)),
               ClearCache (destS3SubPath p) True (mount_id (the_mount p)),
               UpdateMountLastUsed (mount_id (the_mount p))]"
    by (simp add: newEvents_def t4 t5 t6 t7)
qed

text \<open>
  C4. A recursive directory copy has passed the parent and the overwrite checks and its
  listing has returned no object; the client heads and puts as the bucket does. The
  handler then sends a head for the source key itself. When the bucket holds no object
  at the source key, the head throws a 404 and the answer is 404 with the text for a
  missing source directory; nothing is written. When the bucket holds an object at the
  source key, the handler sends one put, of an empty body with ContentLength 0 at the
  destination key, clears the cache, refreshes the mount and answers 201; the bucket
  after the run is the bucket of the listing with the empty object written at the
  destination key, which therefore holds a body of length zero.
\<close>

theorem empty_listing_falls_back_to_head:
  assumes "headsAndPutsOnBucket E"
    and "validate E req = Inr p" and "isDirectory p" and "depth p \<noteq> ''0''"
    and "ensureParent E p w = (Inr (), w1)"
    and "destinationExists E p w1 = (Inr destExists, w2)"
    and "allowOverwrite p \<or> \<not> destExists"
    and "listObjects E (sourceS3SubPath p) [] None w2 = Some (Inr [], w3)"
  shows "(map_of (backend w3) (sourceS3SubPath p) = None \<longrightarrow>
            handleCopy E req w =
              Some (\<lparr>status = 404, content = SourceDirectoryMissing\<rparr>,
                \<lparr>backend = backend w3,
                 trace = trace w3 @ [Send (HeadObjectCommand (sourceS3SubPath p))]\<rparr>)) \<and>
         (map_of (backend w3) (sourceS3SubPath p) \<noteq> None \<longrightarrow>
            handleCopy E req w =
              Some (\<lparr>status = 201, content = NoBody\<rparr>,
                \<lparr>backend = AList.update (destS3SubPath p) [] (backend w3),
                 trace = trace w3 @
                   [Send (HeadObjectCommand (sourceS3SubPath p)),
                    Send (PutObjectCommand (destS3SubPath p) [] None (Some 0)),
                    ClearCache (destS3SubPath p) True (mount_id (the_mount p)),
                    UpdateMountLastUsed (mount_id (the_mount p))]\<rparr>) \<and>
            map_of (AList.update (destS3SubPath p) [] (backend w3)) (destS3SubPath p) = Some [])"
proof -
  let ?S = "sourceS3SubPath p" and ?D = "destS3SubPath p"
  have hd: "\<And>k b. send E (HeadObjectCommand k) b =
      (case map_of b k of None \<Rightarrow> (Inl notFound, b) | Some v \<Rightarrow> (Inr noOutput, b))"
    and pt: "\<And>k v ct cl b. send E (PutObjectCommand k v ct cl) b =
      (Inr noOutput, AList.update k v b)"
    and cc: "clearCacheAfterWebDAVOperation E = (\<lambda>k d m. unchanged)"
    and lu: "updateMountLastUsed E = (\<lambda>m. unchanged)"
    using assms(1) by (simp_all add: headsAndPutsOnBucket_def)
  have tr: "transfer E p w2 = Some (copyEmptyDirectory E p w3)"
    using assms(3,4,8) by (simp add: transfer_def copyDirectory_def)
  have ex: "execute E p w =
      (case copyEmptyDirectory E p w3 of
         (Inl e, w4) \<Rightarrow> Some (Inl e, w4)
       | (Inr (Some r), w4) \<Rightarrow> Some (Inr r, w4)
       | (Inr None, w4) \<Rightarrow> Some (created E p w4))"
    using assms(5,6,7) tr
    by (auto simp: execute_def split: prod.splits sum.splits option.splits)
  have missing: "handleCopy E req w =
      Some (\<lparr>status = 404, content = SourceDirectoryMissing\<rparr>,
        \<lparr>backend = backend w3, trace = trace w3 @ [Send (HeadObjectCommand ?S)]\<rparr>)"
    if "map_of (backend w3) ?S = None"
  proof -
    have "copyEmptyDirectory E p w3 =
        (Inr (Some \<lparr>status = 404, content = SourceDirectoryMissing\<rparr>),
         \<lparr>backend = backend w3, trace = trace w3 @ [Send (HeadObjectCommand ?S)]\<rparr>)"
      using that
      by (simp add: copyEmptyDirectory_def s3_def call_def hd notFound_def
          sourceDirectoryMissing_def)
    then show ?thesis
      using assms(2) by (simp add: handleCopy_def ex)
  qed
  have present: "handleCopy E req w =
      Some (\<lparr>status = 201, content = NoBody\<rparr>,
        \<lparr>backend = AList.update ?D [] (backend w3),
         trace = trace w3 @
           [Send (HeadObjectCommand ?S),
            Send (PutObjectCommand ?D [] None (Some 0)),
            ClearCache ?D True (mount_id (the_mount p)),
            UpdateMountLastUsed (mount_id (the_mount p))]\<rparr>)"
    if "map_of (backend w3) ?S \<noteq> None"
  proof -
    from that obtain v where v: "map_of (backend w3) ?S = Some v" by auto
    have "copyEmptyDirectory E p w3 =
        (Inr None,
         \<lparr>backend = AList.update ?D [] (backend w3),
          trace = trace w3 @
            [Send (HeadObjectCommand ?S),
             Send (PutObjectCommand ?D [] None (Some 0)),
             ClearCache ?D True (mount_id (the_mount p))]\<rparr>)"
      using v
      by (simp add: copyEmptyDirectory_def s3_def call_def hd pt emptyObject_def
          clearCache_def cc unchanged_def)
    then show ?thesis
      using assms(2)
      by (simp add: handleCopy_def ex created_def call_def lu unchanged_def)
  qed
  have "map_of (AList.update ?D [] (backend w3)) ?D = Some []"
    by (simp add: update_conv')
  with missing present show ?thesis by blast
qed

lemma headsAndPutsOnBucket_deployment: "headsAndPutsOnBucket (deployment n)"
  by (simp add: headsAndPutsOnBucket_def deployment_def)

lemma headsAndPutsOnBucket_hiding: "headsAndPutsOnBucket (deploymentHidingMarkers n)"
  by (simp add: headsAndPutsOnBucket_def deploymentHidingMarkers_def deployment_def
      bucket_send_hiding_markers_def)

theorem empty_listing_falls_back_to_head_witness:
  "handleCopy (deployment 2) (copyRequest ''/m/a/'' ''/m/c/'') (start [(''x'', ''X'')]) =
     Some (\<lparr>status = 404, content = SourceDirectoryMissing\<rparr>,
       \<lparr>backend = [(''x'', ''X''), (''c/'', [])],
        trace = [CheckDirectoryExists ''c/'',
                 Send (PutObjectCommand ''c/'' [] (Some ''application/x-directory'') None),
                 Send (HeadObjectCommand ''c/''), Send (ListObjectsV2Command ''a/'' None),
                 Send (HeadObjectCommand ''a/'')]\<rparr>) \<and>
   map_of [(''a/'', []), (''c/y'', ''Y'')] ''c/'' = None \<and>
   handleCopy (deploymentHidingMarkers 2) (copyRequest ''/m/a/'' ''/m/c/'')
       (start [(''a/'', []), (''c/y'', ''Y'')]) =
     Some (\<lparr>status = 201, content = NoBody\<rparr>,
       \<lparr>backend = [(''a/'', []), (''c/y'', ''Y''), (''c/'', [])],
        trace = [CheckDirectoryExists ''c/'', Send (HeadObjectCommand ''c/''),
                 Send (ListObjectsV2Command ''a/'' None),
                 Send (HeadObjectCommand ''a/''),
                 Send (PutObjectCommand ''c/'' [] None (Some 0)),
                 ClearCache ''c/'' True ''1'', UpdateMountLastUsed ''1'']\<rparr>) \<and>
   map_of [(''a/'', []), (''c/y'', ''Y''), (''c/'', [])] ''c/'' = Some []"
proof -
  let ?req = "copyRequest ''/m/a/'' ''/m/c/''"
  let ?p = "\<lparr>the_mount = \<lparr>mount_id = ''1'', storage_config_id = ''c1''\<rparr>,
          s3Config = \<lparr>bucket_name = ''b1'', root_prefix = None\<rparr>,
          isDirectory = True, sourceS3SubPath = ''a/'', destS3SubPath = ''c/'',
          depth = ''infinity'', allowOverwrite = True\<rparr>"
  let ?E = "deployment 2"
  let ?b = "[(''x'', ''X''), (''c/'', [])]"
  let ?t1 = "[CheckDirectoryExists ''c/'',
      Send (PutObjectCommand ''c/'' [] (Some ''application/x-directory'') None)]"
  let ?t2 = "?t1 @ [Send (HeadObjectCommand ''c/'')]"
  let ?t3 = "?t2 @ [Send (ListObjectsV2Command ''a/'' None)]"
  have a0: "headsAndPutsOnBucket ?E"
    by (rule headsAndPutsOnBucket_deployment)
  have a1: "validate ?E ?req = Inr ?p"
    by code_simp
  have a2: "isDirectory ?p" and a3: "depth ?p \<noteq> ''0''"
    by simp_all
  have a4: "ensureParent ?E ?p (start [(''x'', ''X'')]) = (Inr (), \<lparr>backend = ?b, trace = ?t1\<rparr>)"
    by code_simp
  have a5: "destinationExists ?E ?p \<lparr>backend = ?b, trace = ?t1\<rparr> =
      (Inr True, \<lparr>backend = ?b, trace = ?t2\<rparr>)"
    by code_simp
  have a6: "allowOverwrite ?p \<or> \<not> True"
    by simp
  have a7: "listObjects ?E (sourceS3SubPath ?p) [] None \<lparr>backend = ?b, trace = ?t2\<rparr> =
      Some (Inr [], \<lparr>backend = ?b, trace = ?t3\<rparr>)"
    by code_simp
  have a8: "map_of (backend \<lparr>backend = ?b, trace = ?t3\<rparr>) (sourceS3SubPath ?p) = None"
    by code_simp
  let ?H = "deploymentHidingMarkers 2"
  let ?c = "[(''a/'', []), (''c/y'', ''Y'')]"
  let ?u1 = "[CheckDirectoryExists ''c/'']"
  let ?u2 = "?u1 @ [Send (HeadObjectCommand ''c/'')]"
  let ?u3 = "?u2 @ [Send (ListObjectsV2Command ''a/'' None)]"
  have b0: "headsAndPutsOnBucket ?H"
    by (rule headsAndPutsOnBucket_hiding)
  have b1: "validate ?H ?req = Inr ?p"
    by code_simp
  have b4: "ensureParent ?H ?p (start ?c) = (Inr (), \<lparr>backend = ?c, trace = ?u1\<rparr>)"
    by code_simp
  have b5: "destinationExists ?H ?p \<lparr>backend = ?c, trace = ?u1\<rparr> =
      (Inr False, \<lparr>backend = ?c, trace = ?u2\<rparr>)"
    by code_simp
  have b6: "allowOverwrite ?p \<or> \<not> False"
    by simp
  have b7: "listObjects ?H (sourceS3SubPath ?p) [] None \<lparr>backend = ?c, trace = ?u2\<rparr> =
      Some (Inr [], \<lparr>backend = ?c, trace = ?u3\<rparr>)"
    by code_simp
  have b8: "map_of (backend \<lparr>backend = ?c, trace = ?u3\<rparr>) (sourceS3SubPath ?p) \<noteq> None"
    by code_simp
  have b9: "AList.update ''c/'' [] ?c = [(''a/'', []), (''c/y'', ''Y''), (''c/'', [])]"
    by code_simp
  have b10: "map_of ?c ''c/'' = None"
    by code_simp
  show ?thesis
    using empty_listing_falls_back_to_head [OF a0 a1 a2 a3 a4 a5 a6 a7] a8
      empty_listing_falls_back_to_head [OF b0 b1 a2 a3 b4 b5 b6 b7] b8 b9 b10
    by simp
qed

section \<open>Runs on the bucket\<close>

lemma copies_append: "copies (xs @ ys) = copies xs @ copies ys"
  by (induction xs rule: copies.induct) simp_all

lemma s3_bucket:
  "onBucket n E \<Longrightarrow>
     s3 E c w = (fst (bucket_send n c (backend w)),
       \<lparr>backend = snd (bucket_send n c (backend w)), trace = trace w @ [Send c]\<rparr>)"
  by (simp add: s3_def call_def onBucket_def split: prod.splits)

lemma keysUnder_empty_iff: "keysUnder b prefix = [] \<longleftrightarrow> (\<forall>k. map_of b k \<noteq> None \<longrightarrow> \<not> startsWith k prefix)"
  by (auto simp: keysUnder_def filter_empty_conv map_of_eq_None_iff)

lemma keysUnder_set: "set (keysUnder b prefix) = {k. map_of b k \<noteq> None \<and> startsWith k prefix}"
  by (auto simp: keysUnder_def map_of_eq_None_iff)

lemma keysUnder_update:
  "\<not> startsWith k prefix \<Longrightarrow> keysUnder (AList.update k v b) prefix = keysUnder b prefix"
  by (simp add: keysUnder_def update_keys)

lemma ensureParent_bucket:
  assumes "onBucket n E"
  shows "\<exists>w1. ensureParent E p w = (Inr (), w1) \<and>
     (backend w1 = backend w \<or>
      backend w1 = AList.update (destParentPath (destS3SubPath p)) [] (backend w) \<and>
      keysUnder (backend w) (destParentPath (destS3SubPath p)) = [])"
proof -
  have c: "checkDirectoryExists E = bucket_checkDirectoryExists"
    using assms by (simp add: onBucket_def)
  show ?thesis
    by (simp add: ensureParent_def call_def c bucket_checkDirectoryExists_def
        s3_bucket [OF assms] directoryMarker_def)
qed

lemma destinationExists_bucket:
  assumes "onBucket n E"
  shows "\<exists>w2. destinationExists E p w = (Inr (map_of (backend w) (destS3SubPath p) \<noteq> None), w2) \<and>
     backend w2 = backend w"
  by (cases "map_of (backend w) (destS3SubPath p)")
    (simp_all add: destinationExists_def s3_bucket [OF assms] notFound_def)

lemma listObjects_bucket:
  assumes "onBucket n E"
  shows "\<exists>w'. listObjects E prefix acc tok w =
       Some (Inr (acc @ drop (case tok of None \<Rightarrow> 0 | Some t \<Rightarrow> length t)
                          (keysUnder (backend w) prefix)), w') \<and>
     backend w' = backend w \<and> copies (trace w') = copies (trace w)"
proof (induction "length (keysUnder (backend w) prefix) - (case tok of None \<Rightarrow> 0 | Some t \<Rightarrow> length t)"
    arbitrary: acc tok w rule: less_induct)
  case less
  let ?skip = "case tok of None \<Rightarrow> 0 | Some t \<Rightarrow> length t"
  let ?ks = "keysUnder (backend w) prefix"
  let ?w1 = "\<lparr>backend = backend w, trace = trace w @ [Send (ListObjectsV2Command prefix tok)]\<rparr>"
  have n: "0 < n" using assms by (simp add: onBucket_def)
  have s: "s3 E (ListObjectsV2Command prefix tok) w = (Inr (page n ?skip ?ks), ?w1)"
    by (simp add: s3_bucket [OF assms])
  have c1: "copies (trace ?w1) = copies (trace w)"
    by (simp add: copies_append)
  show ?case
  proof (cases "n < length (drop ?skip ?ks)")
    case True
    let ?tok' = "Some (replicate (?skip + n) CHR ''x'')"
    have t: "truthy (NextContinuationToken (page n ?skip ?ks))"
      using True n by (simp add: page_def truthy_def)
    have ne: "drop ?skip ?ks \<noteq> []" using True by auto
    have step: "listObjects E prefix acc tok w =
        listObjects E prefix (acc @ take n (drop ?skip ?ks)) ?tok' ?w1"
      using True ne n by (subst listObjects.simps) (simp add: s page_def truthy_def)
    have "length (keysUnder (backend ?w1) prefix) - (case ?tok' of None \<Rightarrow> 0 | Some t \<Rightarrow> length t)
        < length ?ks - ?skip"
      using True n by simp
    from less [OF this, of "acc @ take n (drop ?skip ?ks)"]
    obtain w' where r: "listObjects E prefix (acc @ take n (drop ?skip ?ks)) ?tok' ?w1 =
        Some (Inr ((acc @ take n (drop ?skip ?ks)) @ drop (?skip + n) ?ks), w')"
      and b: "backend w' = backend w" and c: "copies (trace w') = copies (trace ?w1)"
      by auto
    have "take n (drop ?skip ?ks) @ drop (?skip + n) ?ks = drop ?skip ?ks"
      by (metis append_take_drop_id drop_drop add.commute)
    with step r b c c1 show ?thesis by simp
  next
    case False
    have t: "\<not> truthy (NextContinuationToken (page n ?skip ?ks))"
      using False by (simp add: page_def truthy_def)
    have "listObjects E prefix acc tok w =
        Some (Inr (acc @ drop ?skip ?ks), ?w1)"
      using False by (subst listObjects.simps) (simp add: s page_def truthy_def)
    with c1 show ?thesis by simp
  qed
qed

lemma startsWith_split: "startsWith k p \<Longrightarrow> k = p @ drop (length p) k"
  by (metis append_take_drop_id startsWith_def)

lemma onBucket_deployment: "0 < n \<Longrightarrow> onBucket n (deployment n)"
  by (simp add: onBucket_def deployment_def)

text \<open>
  C3. The destination key is the key that lines 87 to 105 compute, so the request has
  passed the validation. On the bucket, when the destination key holds an object and the
  request says \<^verbatim>\<open>Overwrite: F\<close>, the answer is 412 and the bucket is returned as it was:
  the only calls are the check of the parent (which exists, since the destination lies
  under it) and the head of the destination, and nothing was put or copied. The flag
  that allows overwriting is false for the header value \<^verbatim>\<open>F\<close> only; with any other
  value, or without the header, the handler does not answer 412.
\<close>

theorem overwrite_F_keeps_destination:
  assumes "onBucket n E" and "validate E req = Inr p"
    and "map_of (backend w) (destS3SubPath p) = Some v"
  shows "allowOverwrite p = (Overwrite req \<noteq> Some ''F'') \<and>
     (Overwrite req = Some ''F'' \<longrightarrow>
        handleCopy E req w =
          Some (\<lparr>status = 412, content = DestinationExists\<rparr>,
            \<lparr>backend = backend w,
             trace = trace w @
               (if CHR ''/'' \<in> set (destS3SubPath p)
                then [CheckDirectoryExists (destParentPath (destS3SubPath p))] else []) @
               [Send (HeadObjectCommand (destS3SubPath p))]\<rparr>)) \<and>
     (Overwrite req \<noteq> Some ''F'' \<longrightarrow>
        (\<forall>r w'. execute E p w = Some (Inr r, w') \<longrightarrow> status r \<noteq> 412))"
proof (intro conjI impI allI)
  show a: "allowOverwrite p = (Overwrite req \<noteq> Some ''F'')"
    using assms(2)
    by (auto simp: validate_def Let_def split: option.splits if_splits)
  have c: "checkDirectoryExists E = bucket_checkDirectoryExists"
    using assms(1) by (simp add: onBucket_def)
  have k: "keysUnder (backend w) (destParentPath (destS3SubPath p)) \<noteq> []"
    using assms(3) startsWith_destParentPath [of "destS3SubPath p"]
    by (auto simp: keysUnder_empty_iff)
  let ?w1 = "\<lparr>backend = backend w,
      trace = trace w @ (if CHR ''/'' \<in> set (destS3SubPath p)
        then [CheckDirectoryExists (destParentPath (destS3SubPath p))] else [])\<rparr>"
  have 1: "ensureParent E p w = (Inr (), ?w1)"
    using k by (simp add: ensureParent_def call_def c bucket_checkDirectoryExists_def)
  have 2: "destinationExists E p ?w1 =
      (Inr True, \<lparr>backend = backend w,
         trace = trace ?w1 @ [Send (HeadObjectCommand (destS3SubPath p))]\<rparr>)"
    using assms(3) by (simp add: destinationExists_def s3_bucket [OF assms(1)])
  {
    assume "Overwrite req = Some ''F''"
    with a have "\<not> allowOverwrite p" by simp
    then have "execute E p w =
        Some (Inr \<lparr>status = 412, content = DestinationExists\<rparr>,
          \<lparr>backend = backend w,
           trace = trace ?w1 @ [Send (HeadObjectCommand (destS3SubPath p))]\<rparr>)"
      by (simp add: execute_def 1 2)
    then show "handleCopy E req w =
          Some (\<lparr>status = 412, content = DestinationExists\<rparr>,
            \<lparr>backend = backend w,
             trace = trace w @
               (if CHR ''/'' \<in> set (destS3SubPath p)
                then [CheckDirectoryExists (destParentPath (destS3SubPath p))] else []) @
               [Send (HeadObjectCommand (destS3SubPath p))]\<rparr>)"
      using assms(2) by (simp add: handleCopy_def)
  }
  {
    fix r w'
    assume o: "Overwrite req \<noteq> Some ''F''" and e: "execute E p w = Some (Inr r, w')"
    from o a have al: "allowOverwrite p" by simp
    from e al obtain w3 x where t: "transfer E p
        \<lparr>backend = backend w,
         trace = trace ?w1 @ [Send (HeadObjectCommand (destS3SubPath p))]\<rparr> = Some (Inr x, w3)"
      and rr: "x = Some r \<or> (x = None \<and> created E p w3 = (Inr r, w'))"
      by (auto simp: execute_def 1 2 split: option.splits sum.splits)
    show "status r \<noteq> 412"
    proof (cases x)
      case None
      with rr created_result [of E p w3 r w'] show ?thesis by simp
    next
      case (Some r')
      with rr have r': "r' = r" by simp
      from t Some have "r' = \<lparr>status = 404, content = SourceDirectoryMissing\<rparr> \<or>
          r' = \<lparr>status = 404, content = SourceFileMissing\<rparr>"
        by (auto simp: transfer_def copyMarker_def copyDirectory_def copyEmptyDirectory_def
            sourceDirectoryMissing_def copyListed_def copyFile_def
            split: if_splits prod.splits sum.splits option.splits)
      with r' show ?thesis by auto
    qed
  }
qed

theorem overwrite_F_keeps_destination_witness:
  "handleCopy (deployment 2) ((copyRequest ''/m/a'' ''/m/c/d'')\<lparr>Overwrite := Some ''F''\<rparr>)
       (start [(''a'', ''A''), (''c/d'', ''D'')]) =
     Some (\<lparr>status = 412, content = DestinationExists\<rparr>,
       \<lparr>backend = [(''a'', ''A''), (''c/d'', ''D'')],
        trace = [CheckDirectoryExists ''c/'', Send (HeadObjectCommand ''c/d'')]\<rparr>) \<and>
   execute (deployment 2)
       \<lparr>the_mount = \<lparr>mount_id = ''1'', storage_config_id = ''c1''\<rparr>,
        s3Config = \<lparr>bucket_name = ''b1'', root_prefix = None\<rparr>,
        isDirectory = False, sourceS3SubPath = ''a'', destS3SubPath = ''c/d'',
        depth = ''infinity'', allowOverwrite = True\<rparr>
       (start [(''a'', ''A''), (''c/d'', ''D'')]) =
     Some (Inr \<lparr>status = 201, content = NoBody\<rparr>,
       \<lparr>backend = [(''a'', ''A''), (''c/d'', ''A'')],
        trace = [CheckDirectoryExists ''c/'', Send (HeadObjectCommand ''c/d''),
                 Send (HeadObjectCommand ''a''), Send (CopyObjectCommand ''a'' ''c/d''),
                 UpdateParentDirectoriesModifiedTime ''c/d'' [],
                 ClearCache ''c/d'' False ''1'', UpdateMountLastUsed ''1'']\<rparr>) \<and>
   status \<lparr>status = 201, content = NoBody\<rparr> \<noteq> 412"
proof -
  let ?w = "start [(''a'', ''A''), (''c/d'', ''D'')]"
  let ?reqF = "(copyRequest ''/m/a'' ''/m/c/d'')\<lparr>Overwrite := Some ''F''\<rparr>"
  let ?req = "copyRequest ''/m/a'' ''/m/c/d''"
  let ?pF = "\<lparr>the_mount = \<lparr>mount_id = ''1'', storage_config_id = ''c1''\<rparr>,
        s3Config = \<lparr>bucket_name = ''b1'', root_prefix = None\<rparr>,
        isDirectory = False, sourceS3SubPath = ''a'', destS3SubPath = ''c/d'',
        depth = ''infinity'', allowOverwrite = False\<rparr>"
  let ?p = "\<lparr>the_mount = \<lparr>mount_id = ''1'', storage_config_id = ''c1''\<rparr>,
        s3Config = \<lparr>bucket_name = ''b1'', root_prefix = None\<rparr>,
        isDirectory = False, sourceS3SubPath = ''a'', destS3SubPath = ''c/d'',
        depth = ''infinity'', allowOverwrite = True\<rparr>"
  have 1: "onBucket 2 (deployment 2)"
    by (simp add: onBucket_deployment)
  have 2: "validate (deployment 2) ?reqF = Inr ?pF"
    by code_simp
  have 3: "map_of (backend ?w) (destS3SubPath ?pF) = Some ''D''"
    by code_simp
  have 4: "validate (deployment 2) ?req = Inr ?p"
    by code_simp
  have 5: "map_of (backend ?w) (destS3SubPath ?p) = Some ''D''"
    by code_simp
  have 6: "Overwrite ?reqF = Some ''F''" and 7: "Overwrite ?req \<noteq> Some ''F''"
    by (simp_all add: copyRequest_def)
  have 8: "destParentPath ''c/d'' = ''c/''"
    by code_simp
  have 9: "execute (deployment 2) ?p ?w =
     Some (Inr \<lparr>status = 201, content = NoBody\<rparr>,
       \<lparr>backend = [(''a'', ''A''), (''c/d'', ''A'')],
        trace = [CheckDirectoryExists ''c/'', Send (HeadObjectCommand ''c/d''),
                 Send (HeadObjectCommand ''a''), Send (CopyObjectCommand ''a'' ''c/d''),
                 UpdateParentDirectoriesModifiedTime ''c/d'' [],
                 ClearCache ''c/d'' False ''1'', UpdateMountLastUsed ''1'']\<rparr>)"
    by code_simp
  show ?thesis
    using overwrite_F_keeps_destination [OF 1 2 3] overwrite_F_keeps_destination [OF 1 4 5]
      6 7 8 9
    by (simp add: start_def)
qed

section \<open>The recursive copy\<close>

lemma startsWith_append: "startsWith (p @ s) p"
  by (simp add: startsWith_def)

lemma call_unchanged:
  "call ev unchanged w = (Inr (), \<lparr>backend = backend w, trace = trace w @ [ev]\<rparr>)"
  by (simp add: call_def unchanged_def)

lemma touchParents_bucket:
  "onBucket n E \<Longrightarrow> touchParents E p w =
     (Inr (), \<lparr>backend = backend w, trace = trace w @
        [UpdateParentDirectoriesModifiedTime (destS3SubPath p) (rootPrefix (s3Config p))]\<rparr>)"
  by (simp add: touchParents_def onBucket_def call_unchanged)

lemma clearCache_bucket:
  "onBucket n E \<Longrightarrow> clearCache E p d w =
     (Inr (), \<lparr>backend = backend w, trace = trace w @
        [ClearCache (destS3SubPath p) d (mount_id (the_mount p))]\<rparr>)"
  by (simp add: clearCache_def onBucket_def call_unchanged)

lemma created_bucket:
  "onBucket n E \<Longrightarrow> created E p w =
     (Inr \<lparr>status = 201, content = NoBody\<rparr>,
      \<lparr>backend = backend w, trace = trace w @ [UpdateMountLastUsed (mount_id (the_mount p))]\<rparr>)"
  by (simp add: created_def onBucket_def call_unchanged)

lemma copyObjects_bucket:
  assumes "onBucket n E"
    and "\<forall>j. startsWith j (sourceS3SubPath p) \<longrightarrow> \<not> startsWith j (destS3SubPath p)"
    and "set ks \<subseteq> {k. map_of (backend w) k \<noteq> None \<and> startsWith k (sourceS3SubPath p)}"
  shows "\<exists>w'. copyObjects E p ks w = (Inr (), w') \<and>
       (\<forall>j. j \<notin> (\<lambda>k. destS3SubPath p @ drop (length (sourceS3SubPath p)) k) ` set ks \<longrightarrow>
            map_of (backend w') j = map_of (backend w) j) \<and>
       (\<forall>k \<in> set ks. map_of (backend w') (destS3SubPath p @ drop (length (sourceS3SubPath p)) k) =
            map_of (backend w) k) \<and>
       copies (trace w') = copies (trace w) @
         map (\<lambda>k. (k, destS3SubPath p @ drop (length (sourceS3SubPath p)) k)) ks"
  using assms(3)
proof (induction ks arbitrary: w)
  case Nil
  then show ?case by simp
next
  case (Cons k ks)
  let ?S = "sourceS3SubPath p" and ?D = "destS3SubPath p"
  let ?to = "\<lambda>k. ?D @ drop (length ?S) k"
  from Cons.prems obtain v where v: "map_of (backend w) k = Some v" and kS: "startsWith k ?S"
    by auto
  let ?w1 = "\<lparr>backend = AList.update (?to k) v (backend w),
      trace = trace w @ [Send (CopyObjectCommand k (?to k))]\<rparr>"
  have s: "s3 E (CopyObjectCommand k (?to k)) w = (Inr noOutput, ?w1)"
    using v by (simp add: s3_bucket [OF assms(1)])
  have m1: "map_of (AList.update (?to k) v (backend w)) = (map_of (backend w))(?to k \<mapsto> v)"
    by (simp add: update_conv')
  have away: "j \<noteq> ?to k" if "startsWith j ?S" for j
    using that assms(2) startsWith_append [of ?D] by auto
  have "set ks \<subseteq> {k. map_of (backend ?w1) k \<noteq> None \<and> startsWith k ?S}"
    using Cons.prems by (auto simp: m1)
  from Cons.IH [OF this] obtain w' where
    c: "copyObjects E p ks ?w1 = (Inr (), w')" and
    f: "\<forall>j. j \<notin> ?to ` set ks \<longrightarrow> map_of (backend w') j = map_of (backend ?w1) j" and
    g: "\<forall>k \<in> set ks. map_of (backend w') (?to k) = map_of (backend ?w1) k" and
    t: "copies (trace w') = copies (trace ?w1) @ map (\<lambda>k. (k, ?to k)) ks"
    by blast
  have 1: "copyObjects E p (k # ks) w = (Inr (), w')"
    using s c by simp
  have 2: "\<forall>j. j \<notin> ?to ` set (k # ks) \<longrightarrow> map_of (backend w') j = map_of (backend w) j"
    using f by (auto simp: m1)
  have 3: "map_of (backend w') (?to k') = map_of (backend w) k'" if "k' \<in> set (k # ks)" for k'
  proof (cases "k' \<in> set ks")
    case True
    then have "startsWith k' ?S" using Cons.prems by auto
    then have "k' \<noteq> ?to k" by (rule away)
    with g True show ?thesis by (simp add: m1)
  next
    case False
    with that have k': "k' = k" by simp
    have "?to k \<notin> ?to ` set ks"
    proof
      assume "?to k \<in> ?to ` set ks"
      then obtain k2 where k2: "k2 \<in> set ks" and e: "drop (length ?S) k = drop (length ?S) k2"
        by auto
      from k2 Cons.prems have "startsWith k2 ?S" by auto
      then have "k2 = ?S @ drop (length ?S) k2" by (rule startsWith_split)
      moreover have "k = ?S @ drop (length ?S) k" using kS by (rule startsWith_split)
      ultimately have "k = k2" using e by simp
      with k2 False k' show False by simp
    qed
    with f have "map_of (backend w') (?to k) = map_of (backend ?w1) (?to k)" by blast
    with v k' show ?thesis by (simp add: m1)
  qed
  have 4: "copies (trace w') = copies (trace w) @ map (\<lambda>k. (k, ?to k)) (k # ks)"
    using t by (simp add: copies_append)
  from 1 2 3 4 show ?case by blast
qed

lemma ensureParent_bucket_copies:
  assumes "onBucket n E" and "ensureParent E p w = (r, w1)"
  shows "copies (trace w1) = copies (trace w)"
proof -
  from ensureParent_trace [OF assms(2)] obtain pre where
    t: "trace w1 = trace w @ pre" and
    pre: "set pre \<subseteq> {CheckDirectoryExists (destParentPath (destS3SubPath p)),
                Send (directoryMarker (destParentPath (destS3SubPath p)))}"
    by blast
  have "copies pre = []"
    using pre by (induction pre rule: copies.induct) (auto simp: directoryMarker_def)
  with t show ?thesis by (simp add: copies_append)
qed

text \<open>
  C1, as amended. A recursive directory copy on the bucket, where neither the source key
  nor the destination key is a prefix of the other. The handler returns: the listing
  ends. When overwriting is allowed and the source key has an object under it, the
  answer is 201. Whenever the answer is 201 (and the error handler never answers 201),
  every object that the bucket held under the source key at the call is afterwards also
  held at the destination key followed by the rest of its key, with the same body; the
  objects under the source key are as they were; and the copies that the handler sent
  are exactly one for each key under the source key, in the order of the listing (all
  its pages), to the destination key followed by the rest of the key.
\<close>

theorem recursive_copy_reproduces_source:
  assumes "onBucket n E" and "validate E req = Inr p"
    and "isDirectory p" and "depth p \<noteq> ''0''"
    and "\<not> startsWith (destS3SubPath p) (sourceS3SubPath p)"
    and "\<not> startsWith (sourceS3SubPath p) (destS3SubPath p)"
  shows "\<exists>r w'. handleCopy E req w = Some (r, w') \<and>
     (allowOverwrite p \<and> keysUnder (backend w) (sourceS3SubPath p) \<noteq> [] \<longrightarrow>
        r = \<lparr>status = 201, content = NoBody\<rparr>) \<and>
     (status r = 201 \<and> (\<forall>e. status (handleWebDAVError E e) \<noteq> 201) \<longrightarrow>
        (\<forall>k v. map_of (backend w) k = Some v \<and> startsWith k (sourceS3SubPath p) \<longrightarrow>
            map_of (backend w') (destS3SubPath p @ drop (length (sourceS3SubPath p)) k) = Some v) \<and>
        (\<forall>k. startsWith k (sourceS3SubPath p) \<longrightarrow>
            map_of (backend w') k = map_of (backend w) k) \<and>
        copies (newEvents w w') =
          map (\<lambda>k. (k, destS3SubPath p @ drop (length (sourceS3SubPath p)) k))
            (keysUnder (backend w) (sourceS3SubPath p)))"
proof -
  let ?S = "sourceS3SubPath p" and ?D = "destS3SubPath p"
  let ?P = "destParentPath (destS3SubPath p)"
  let ?to = "\<lambda>k. ?D @ drop (length ?S) k"
  let ?ks = "keysUnder (backend w) ?S"
  have apart: "\<forall>j. startsWith j ?S \<longrightarrow> \<not> startsWith j ?D"
    using startsWith_comparable assms(5,6) by blast
  have PS: "\<not> startsWith ?P ?S"
    using startsWith_trans [OF startsWith_destParentPath, of ?D ?S] assms(5) by blast
  from ensureParent_bucket [OF assms(1), of p w] obtain w1 where
    1: "ensureParent E p w = (Inr (), w1)" and
    b1: "backend w1 = backend w \<or> backend w1 = AList.update ?P [] (backend w)"
    by blast
  have c1: "copies (trace w1) = copies (trace w)"
    using assms(1) 1 by (rule ensureParent_bucket_copies)
  have m1: "map_of (backend w1) j = map_of (backend w) j" if "startsWith j ?S" for j
  proof -
    from that PS have "j \<noteq> ?P" by auto
    with b1 show ?thesis by (auto simp: update_conv')
  qed
  have k1: "keysUnder (backend w1) ?S = ?ks"
    using b1 PS by (auto simp: keysUnder_update)
  from destinationExists_bucket [OF assms(1), of p w1] obtain w2 where
    2: "destinationExists E p w1 = (Inr (map_of (backend w1) ?D \<noteq> None), w2)" and
    b2: "backend w2 = backend w1"
    by blast
  have c2: "copies (trace w2) = copies (trace w1)"
    using destinationExists_trace [OF 2] by (simp add: copies_append)
  from listObjects_bucket [OF assms(1), of ?S "[]" None w2] obtain w3 where
    3: "listObjects E ?S [] None w2 = Some (Inr (keysUnder (backend w2) ?S), w3)" and
    b3: "backend w3 = backend w2" and c3: "copies (trace w3) = copies (trace w2)"
    by auto
  have l3: "listObjects E ?S [] None w2 = Some (Inr ?ks, w3)"
    using 3 b2 k1 by simp
  have tr: "transfer E p w2 =
      Some (if ?ks = [] then copyEmptyDirectory E p w3 else copyListed E p ?ks w3)"
    using assms(3,4) l3 by (simp add: transfer_def copyDirectory_def)
  show ?thesis
  proof (cases "map_of (backend w1) ?D \<noteq> None \<and> \<not> allowOverwrite p")
    case True
    then have "execute E p w = Some (Inr \<lparr>status = 412, content = DestinationExists\<rparr>, w2)"
      using 1 2 by (simp add: execute_def)
    then have "handleCopy E req w = Some (\<lparr>status = 412, content = DestinationExists\<rparr>, w2)"
      using assms(2) by (simp add: handleCopy_def)
    with True show ?thesis by simp
  next
    case go: False
    show ?thesis
    proof (cases "?ks = []")
      case True
      have "map_of (backend w) ?S = None"
        using True startsWith_refl [of ?S] by (auto simp: keysUnder_empty_iff)
      then have "map_of (backend w3) ?S = None"
        using m1 [OF startsWith_refl] b2 b3 by simp
      then have "copyEmptyDirectory E p w3 =
          (Inr (Some \<lparr>status = 404, content = SourceDirectoryMissing\<rparr>),
           \<lparr>backend = backend w3, trace = trace w3 @ [Send (HeadObjectCommand ?S)]\<rparr>)"
        by (simp add: copyEmptyDirectory_def s3_bucket [OF assms(1)] notFound_def
            sourceDirectoryMissing_def)
      with 1 2 tr True go have "execute E p w =
          Some (Inr \<lparr>status = 404, content = SourceDirectoryMissing\<rparr>,
           \<lparr>backend = backend w3, trace = trace w3 @ [Send (HeadObjectCommand ?S)]\<rparr>)"
        by (auto simp: execute_def)
      then have "handleCopy E req w =
          Some (\<lparr>status = 404, content = SourceDirectoryMissing\<rparr>,
           \<lparr>backend = backend w3, trace = trace w3 @ [Send (HeadObjectCommand ?S)]\<rparr>)"
        using assms(2) by (simp add: handleCopy_def)
      with True show ?thesis by simp
    next
      case ne: False
      have "set ?ks \<subseteq> {k. map_of (backend w3) k \<noteq> None \<and> startsWith k ?S}"
        using m1 b2 b3 by (auto simp: keysUnder_set)
      from copyObjects_bucket [OF assms(1) apart this] obtain w4 where
        4: "copyObjects E p ?ks w3 = (Inr (), w4)" and
        f: "\<forall>j. j \<notin> ?to ` set ?ks \<longrightarrow> map_of (backend w4) j = map_of (backend w3) j" and
        g: "\<forall>k \<in> set ?ks. map_of (backend w4) (?to k) = map_of (backend w3) k" and
        c4: "copies (trace w4) = copies (trace w3) @ map (\<lambda>k. (k, ?to k)) ?ks"
        by blast
      let ?w5 = "\<lparr>backend = backend w4, trace = trace w4 @
          [UpdateParentDirectoriesModifiedTime ?D (rootPrefix (s3Config p)),
           ClearCache ?D True (mount_id (the_mount p))]\<rparr>"
      have 5: "copyListed E p ?ks w3 = (Inr None, ?w5)"
        by (simp add: copyListed_def 4 touchParents_bucket [OF assms(1)]
            clearCache_bucket [OF assms(1)])
      let ?w6 = "\<lparr>backend = backend w4, trace = trace ?w5 @
          [UpdateMountLastUsed (mount_id (the_mount p))]\<rparr>"
      have "execute E p w = Some (Inr \<lparr>status = 201, content = NoBody\<rparr>, ?w6)"
        using 1 2 tr ne 5 go by (auto simp: execute_def created_bucket [OF assms(1)])
      then have h: "handleCopy E req w = Some (\<lparr>status = 201, content = NoBody\<rparr>, ?w6)"
        using assms(2) by (simp add: handleCopy_def)
      have cw: "copies (trace ?w6) = copies (trace w) @ map (\<lambda>k. (k, ?to k)) ?ks"
        using c4 c3 c2 c1 by (simp add: copies_append)
      have post1: "map_of (backend ?w6) (?to k) = Some v"
        if "map_of (backend w) k = Some v" and "startsWith k ?S" for k v
      proof -
        from that have "k \<in> set ?ks" by (simp add: keysUnder_set)
        with g have "map_of (backend w4) (?to k) = map_of (backend w3) k" by blast
        with that m1 b2 b3 show ?thesis by simp
      qed
      have post2: "map_of (backend ?w6) k = map_of (backend w) k" if "startsWith k ?S" for k
      proof -
        have "k \<notin> ?to ` set ?ks"
          using that apart startsWith_append [of ?D] by auto
        with f have "map_of (backend w4) k = map_of (backend w3) k" by blast
        with that m1 b2 b3 show ?thesis by simp
      qed
      from additive_handleCopy [OF assms(2) h] obtain evs where
        evs: "trace ?w6 = trace w @ evs"
        by (auto simp: extends_def)
      then have "newEvents w ?w6 = evs"
        by (simp add: newEvents_def)
      moreover from evs cw have "copies evs = map (\<lambda>k. (k, ?to k)) ?ks"
        by (simp add: copies_append)
      ultimately have post3: "copies (newEvents w ?w6) = map (\<lambda>k. (k, ?to k)) ?ks"
        by simp
      from h post1 post2 post3 show ?thesis by blast
    qed
  qed
qed

theorem recursive_copy_reproduces_source_witness:
  "map_of [(''a/a'', ''A''), (''a/b/a'', ''B''), (''a/c'', ''C''), (''c/'', []),
           (''c/a'', ''A''), (''c/b/a'', ''B''), (''c/c'', ''C'')]
     (''c/'' @ drop (length ''a/'') ''a/b/a'') = Some ''B'' \<and>
   map_of [(''a/a'', ''A''), (''a/b/a'', ''B''), (''a/c'', ''C''), (''c/'', []),
           (''c/a'', ''A''), (''c/b/a'', ''B''), (''c/c'', ''C'')] ''a/b/a'' =
     map_of [(''a/a'', ''A''), (''a/b/a'', ''B''), (''a/c'', ''C'')] ''a/b/a'' \<and>
   copies
     [CheckDirectoryExists ''c/'', Send (directoryMarker ''c/''),
      Send (HeadObjectCommand ''c/''),
      Send (ListObjectsV2Command ''a/'' None),
      Send (ListObjectsV2Command ''a/'' (Some ''x'')),
      Send (ListObjectsV2Command ''a/'' (Some ''xx'')),
      Send (CopyObjectCommand ''a/a'' ''c/a''),
      Send (CopyObjectCommand ''a/b/a'' ''c/b/a''),
      Send (CopyObjectCommand ''a/c'' ''c/c''),
      UpdateParentDirectoriesModifiedTime ''c/'' [],
      ClearCache ''c/'' True ''1'', UpdateMountLastUsed ''1''] =
     [(''a/a'', ''c/a''), (''a/b/a'', ''c/b/a''), (''a/c'', ''c/c'')]"
proof -
  let ?b = "[(''a/a'', ''A''), (''a/b/a'', ''B''), (''a/c'', ''C'')]"
  let ?b' = "[(''a/a'', ''A''), (''a/b/a'', ''B''), (''a/c'', ''C''), (''c/'', []),
           (''c/a'', ''A''), (''c/b/a'', ''B''), (''c/c'', ''C'')]"
  let ?evs = "[CheckDirectoryExists ''c/'', Send (directoryMarker ''c/''),
      Send (HeadObjectCommand ''c/''),
      Send (ListObjectsV2Command ''a/'' None),
      Send (ListObjectsV2Command ''a/'' (Some ''x'')),
      Send (ListObjectsV2Command ''a/'' (Some ''xx'')),
      Send (CopyObjectCommand ''a/a'' ''c/a''),
      Send (CopyObjectCommand ''a/b/a'' ''c/b/a''),
      Send (CopyObjectCommand ''a/c'' ''c/c''),
      UpdateParentDirectoriesModifiedTime ''c/'' [],
      ClearCache ''c/'' True ''1'', UpdateMountLastUsed ''1'']"
  let ?p = "\<lparr>the_mount = \<lparr>mount_id = ''1'', storage_config_id = ''c1''\<rparr>,
          s3Config = \<lparr>bucket_name = ''b1'', root_prefix = None\<rparr>,
          isDirectory = True, sourceS3SubPath = ''a/'', destS3SubPath = ''c/'',
          depth = ''infinity'', allowOverwrite = True\<rparr>"
  let ?w' = "\<lparr>backend = ?b', trace = ?evs\<rparr>"
  have 1: "onBucket 1 (deployment 1)"
    by (simp add: onBucket_deployment)
  have 2: "validate (deployment 1) (copyRequest ''/m/a/'' ''/m/c/'') = Inr ?p"
    by code_simp
  have 3: "isDirectory ?p" and 4: "depth ?p \<noteq> ''0''"
    by simp_all
  have 5: "\<not> startsWith (destS3SubPath ?p) (sourceS3SubPath ?p)"
    by code_simp
  have 6: "\<not> startsWith (sourceS3SubPath ?p) (destS3SubPath ?p)"
    by code_simp
  have 7: "handleCopy (deployment 1) (copyRequest ''/m/a/'' ''/m/c/'') (start ?b) =
      Some (\<lparr>status = 201, content = NoBody\<rparr>, ?w')"
    by code_simp
  have 9: "\<forall>e. status (handleWebDAVError (deployment 1) e) \<noteq> 201"
    by (simp add: deployment_def errorResponse_not_created)
  from recursive_copy_reproduces_source [OF 1 2 3 4 5 6, of "start ?b"] 7 9
  have T: "(\<forall>k v. map_of (backend (start ?b)) k = Some v \<and> startsWith k (sourceS3SubPath ?p) \<longrightarrow>
            map_of (backend ?w') (destS3SubPath ?p @ drop (length (sourceS3SubPath ?p)) k) = Some v) \<and>
        (\<forall>k. startsWith k (sourceS3SubPath ?p) \<longrightarrow>
            map_of (backend ?w') k = map_of (backend (start ?b)) k) \<and>
        copies (newEvents (start ?b) ?w') =
          map (\<lambda>k. (k, destS3SubPath ?p @ drop (length (sourceS3SubPath ?p)) k))
            (keysUnder (backend (start ?b)) (sourceS3SubPath ?p))"
    by auto
  have a: "map_of (backend (start ?b)) ''a/b/a'' = Some ''B''"
    by code_simp
  have b: "startsWith ''a/b/a'' (sourceS3SubPath ?p)"
    by code_simp
  have c: "newEvents (start ?b) ?w' = ?evs"
    by (simp add: newEvents_def start_def)
  have d: "keysUnder (backend (start ?b)) (sourceS3SubPath ?p) = [''a/a'', ''a/b/a'', ''a/c'']"
    by code_simp
  from T a b have "map_of (backend ?w')
      (destS3SubPath ?p @ drop (length (sourceS3SubPath ?p)) ''a/b/a'') = Some ''B''"
    by blast
  moreover from T b have "map_of (backend ?w') ''a/b/a'' = map_of (backend (start ?b)) ''a/b/a''"
    by blast
  moreover from T have "copies (newEvents (start ?b) ?w') =
      map (\<lambda>k. (k, destS3SubPath ?p @ drop (length (sourceS3SubPath ?p)) k))
        (keysUnder (backend (start ?b)) (sourceS3SubPath ?p))"
    by blast
  ultimately show ?thesis
    using c d by (simp add: start_def)
qed

text \<open>
  A copy of \<^verbatim>\<open>/m/a/\<close> into itself, to \<^verbatim>\<open>/m/a/b/\<close>, answers 201. The object
  \<^verbatim>\<open>a/b/a\<close> of the source had the body \<open>B\<close>; its copy under the destination,
  \<^verbatim>\<open>a/b/b/a\<close>, has the body \<open>A\<close>, because the copy of \<^verbatim>\<open>a/a\<close> had replaced
  \<^verbatim>\<open>a/b/a\<close> before that was copied.
\<close>

theorem copy_into_itself_loses_content:
  "handleCopy (deployment 2) (copyRequest ''/m/a/'' ''/m/a/b/'')
       (start [(''a/a'', ''A''), (''a/b/a'', ''B'')]) =
     Some (\<lparr>status = 201, content = NoBody\<rparr>,
       \<lparr>backend = [(''a/a'', ''A''), (''a/b/a'', ''A''), (''a/b/b/a'', ''A'')],
        trace =
          [CheckDirectoryExists ''a/b/'', Send (HeadObjectCommand ''a/b/''),
           Send (ListObjectsV2Command ''a/'' None),
           Send (CopyObjectCommand ''a/a'' ''a/b/a''),
           Send (CopyObjectCommand ''a/b/a'' ''a/b/b/a''),
           UpdateParentDirectoriesModifiedTime ''a/b/'' [],
           ClearCache ''a/b/'' True ''1'', UpdateMountLastUsed ''1'']\<rparr>) \<and>
   map_of [(''a/a'', ''A''), (''a/b/a'', ''B'')] ''a/b/a'' = Some ''B'' \<and>
   startsWith ''a/b/a'' ''a/'' \<and>
   map_of [(''a/a'', ''A''), (''a/b/a'', ''A''), (''a/b/b/a'', ''A'')]
     (''a/b/'' @ drop (length ''a/'') ''a/b/a'') = Some ''A''"
  by code_simp

section \<open>The marker on the bucket\<close>

lemma copyMarker_bucket:
  "onBucket n E \<Longrightarrow> copyMarker E p w =
     (Inr None,
      \<lparr>backend = AList.update (destS3SubPath p) [] (backend w),
       trace = trace w @ [Send (emptyObject (destS3SubPath p)),
                          ClearCache (destS3SubPath p) True (mount_id (the_mount p))]\<rparr>)"
  by (simp add: copyMarker_def s3_bucket emptyObject_def clearCache_bucket)

lemma depth0_bucket:
  assumes "onBucket n E" and "isDirectory p" and "depth p = ''0''"
    and "execute E p w = Some (Inr r, w')" and "status r = 201"
  shows "map_of (backend w') (destS3SubPath p) = Some [] \<and>
     (\<forall>k. k \<noteq> destS3SubPath p \<and> k \<noteq> destParentPath (destS3SubPath p) \<longrightarrow>
          map_of (backend w') k = map_of (backend w) k)"
proof -
  let ?D = "destS3SubPath p" and ?P = "destParentPath (destS3SubPath p)"
  from ensureParent_bucket [OF assms(1), of p w] obtain w1 where
    1: "ensureParent E p w = (Inr (), w1)" and
    b1: "backend w1 = backend w \<or> backend w1 = AList.update ?P [] (backend w)"
    by blast
  from destinationExists_bucket [OF assms(1), of p w1] obtain w2 where
    2: "destinationExists E p w1 = (Inr (map_of (backend w1) ?D \<noteq> None), w2)" and
    b2: "backend w2 = backend w1"
    by blast
  have t: "transfer E p w2 = Some (copyMarker E p w2)"
    using assms(2,3) by (simp add: transfer_def)
  have "backend w' = AList.update ?D [] (backend w2)"
    using assms(4,5) 1 2 t
    by (auto simp: execute_def copyMarker_bucket [OF assms(1)] created_bucket [OF assms(1)]
        split: if_splits)
  with b1 b2 show ?thesis
    by (auto simp: update_conv')
qed

lemma depth0_trace:
  assumes "validate E req = Inr p" and "isDirectory p" and "depth p = ''0''"
    and "handleCopy E req w = Some (r, w')" and "status r = 201"
    and "\<forall>e. status (handleWebDAVError E e) \<noteq> 201"
  shows "(\<exists>pre. trace w' = trace w @ pre @
          [Send (HeadObjectCommand (destS3SubPath p)),
           Send (emptyObject (destS3SubPath p)),
           ClearCache (destS3SubPath p) True (mount_id (the_mount p)),
           UpdateMountLastUsed (mount_id (the_mount p))] \<and>
       set pre \<subseteq> {CheckDirectoryExists (destParentPath (destS3SubPath p)),
                  Send (directoryMarker (destParentPath (destS3SubPath p)))}) \<and>
     startsWith (destS3SubPath p) (destParentPath (destS3SubPath p)) \<and>
     (onBucket n E \<longrightarrow>
        map_of (backend w') (destS3SubPath p) = Some [] \<and>
        (\<forall>k. k \<noteq> destS3SubPath p \<and> k \<noteq> destParentPath (destS3SubPath p) \<longrightarrow>
             map_of (backend w') k = map_of (backend w) k))"
proof -
  have ex: "execute E p w = Some (Inr r, w')"
    using assms(1,4,5,6) by (rule handleCopy_created)
  obtain r1 w1 where 1: "ensureParent E p w = (r1, w1)"
    by (cases "ensureParent E p w")
  obtain r2 w2 where 2: "destinationExists E p w1 = (r2, w2)"
    by (cases "destinationExists E p w1")
  obtain r3 w3 where 3: "copyMarker E p w2 = (r3, w3)"
    by (cases "copyMarker E p w2")
  have t: "transfer E p w2 = Some (r3, w3)"
    using assms(2,3) 3 by (simp add: transfer_def)
  from ex 1 2 t assms(5) obtain x where 4: "r3 = Inr x"
    by (cases r3) (auto simp: execute_def split: sum.splits if_splits)
  from copyMarker_result [OF 3 [unfolded 4]] have x: "x = None"
    and t3: "trace w3 = trace w2 @ [Send (emptyObject (destS3SubPath p)),
        ClearCache (destS3SubPath p) True (mount_id (the_mount p))]"
    by simp_all
  from ex 1 2 t 4 x assms(5) have 5: "created E p w3 = (Inr r, w')"
    by (auto simp: execute_def split: sum.splits if_splits)
  from ensureParent_trace [OF 1] obtain pre where
    t1: "trace w1 = trace w @ pre" and
    pre: "set pre \<subseteq> {CheckDirectoryExists (destParentPath (destS3SubPath p)),
                Send (directoryMarker (destParentPath (destS3SubPath p)))}"
    by blast
  have t2: "trace w2 = trace w1 @ [Send (HeadObjectCommand (destS3SubPath p))]"
    using 2 by (rule destinationExists_trace)
  have t4: "trace w' = trace w3 @ [UpdateMountLastUsed (mount_id (the_mount p))]"
    using created_result [OF 5] by simp
  have "trace w' = trace w @ pre @
          [Send (HeadObjectCommand (destS3SubPath p)),
           Send (emptyObject (destS3SubPath p)),
           ClearCache (destS3SubPath p) True (mount_id (the_mount p)),
           UpdateMountLastUsed (mount_id (the_mount p))]"
    by (simp add: t1 t2 t3 t4)
  with pre have A: "\<exists>pre. trace w' = trace w @ pre @
          [Send (HeadObjectCommand (destS3SubPath p)),
           Send (emptyObject (destS3SubPath p)),
           ClearCache (destS3SubPath p) True (mount_id (the_mount p)),
           UpdateMountLastUsed (mount_id (the_mount p))] \<and>
       set pre \<subseteq> {CheckDirectoryExists (destParentPath (destS3SubPath p)),
                  Send (directoryMarker (destParentPath (destS3SubPath p)))}"
    by blast
  have B: "onBucket n E \<longrightarrow>
        map_of (backend w') (destS3SubPath p) = Some [] \<and>
        (\<forall>k. k \<noteq> destS3SubPath p \<and> k \<noteq> destParentPath (destS3SubPath p) \<longrightarrow>
             map_of (backend w') k = map_of (backend w) k)"
    using depth0_bucket [OF _ assms(2,3) ex assms(5)] by blast
  from A B startsWith_destParentPath show ?thesis by blast
qed

text \<open>
  C6. A directory is copied with \<^verbatim>\<open>Depth: 0\<close> to \<^verbatim>\<open>/m/c/\<close>, which the bucket does not
  hold. The answer is 201, nothing is listed, nothing is copied and no key below the
  destination key is written, but the destination key is put twice. Line 113 takes
  the part of the key up to its last separator as the parent, which for a key that ends
  in a separator is the key itself; so the step that the source calls the creation of
  the destination's parent directory (lines 111 to 136) puts the destination key, and
  the branch for \<^verbatim>\<open>Depth: 0\<close> (lines 169 to 177) puts it again.
\<close>

theorem depth0_copy_puts_destination_twice:
  "handleCopy (deployment 2) ((copyRequest ''/m/a/'' ''/m/c/'')\<lparr>Depth := Some ''0''\<rparr>)
       (start [(''a/'', []), (''a/x'', ''A'')]) =
     Some (\<lparr>status = 201, content = NoBody\<rparr>,
       \<lparr>backend = [(''a/'', []), (''a/x'', ''A''), (''c/'', [])],
        trace =
          [CheckDirectoryExists ''c/'',
           Send (PutObjectCommand ''c/'' [] (Some ''application/x-directory'') None),
           Send (HeadObjectCommand ''c/''),
           Send (PutObjectCommand ''c/'' [] None (Some 0)),
           ClearCache ''c/'' True ''1'', UpdateMountLastUsed ''1'']\<rparr>) \<and>
   destParentPath ''c/'' = ''c/''"
  by code_simp

section \<open>The depth header\<close>






end
